theory Spec2Isabelle
  imports Complex_Main "HOL-Library.Monad_Syntax"
begin

section \<open>Node model\<close>

text \<open>
  The typeset library's node model, as \<^verbatim>\<open>linebreaks.cpp\<close> and \<^verbatim>\<open>layoutreader.h\<close> use it.
  C++ \<^verbatim>\<open>float\<close> values are modelled by \<^typ>\<open>real\<close>: the comparisons and the order of the
  arithmetic operations are the source's, rounding is not modelled. Conversions from a
  floating-point value to \<^verbatim>\<open>int\<close> and from \<^verbatim>\<open>size_t\<close> to \<^verbatim>\<open>int\<close>, and the arithmetic on
  \<^verbatim>\<open>int\<close>, are modelled with their range.
  Iterators into a \<^verbatim>\<open>List\<close> (a \<^verbatim>\<open>std::list\<close> of shared node pointers) are indices into the
  list: \<^verbatim>\<open>begin()\<close> is \<open>0\<close> and \<^verbatim>\<open>end()\<close> is the length.
\<close>

datatype GlueOrder = Normal | Fil | Fill | Filll

text \<open>
  Modelled from the spec: class \<^verbatim>\<open>Glue\<close> of \<^verbatim>\<open>tex/glue.h\<close>, which is not among the sources.
  A glue has a nominal space, and a shrink and a stretch that each carry an order. The
  fields are named after the accessors the sources call (\<^verbatim>\<open>space()\<close>, \<^verbatim>\<open>shrink()\<close>,
  \<^verbatim>\<open>stretch()\<close>, \<^verbatim>\<open>shrinkOrder()\<close>, \<^verbatim>\<open>stretchOrder()\<close>).
\<close>

record Glue =
  space :: real
  shrink :: real
  stretch :: real
  shrinkOrder :: GlueOrder
  stretchOrder :: GlueOrder

text \<open>
  The scalar fields of a list box (\<^verbatim>\<open>HBox\<close> or \<^verbatim>\<open>VBox\<close>): its dimensions, its shift amount
  and the glue setting chosen when the box was built.
\<close>

record ListBoxData =
  lb_width :: real
  lb_height :: real
  lb_depth :: real
  shiftAmount :: real
  glueRatio :: real
  glueOrder :: GlueOrder

text \<open>
  A node is a box, a kern (its space), a glue or a penalty (its value). A box is a rule,
  a horizontal or vertical list box owning its nodes, or any other box (a character box);
  rules and character boxes carry width, height and depth.
\<close>

datatype Box =
    Rule real real real
  | CharBox real real real
  | HBox ListBoxData "Node list"
  | VBox ListBoxData "Node list"
and Node =
    BoxNode Box
  | KernNode real
  | GlueNode Glue
  | PenaltyNode int

fun width :: "Box \<Rightarrow> real" where
  "width (Rule w h d) = w"
| "width (CharBox w h d) = w"
| "width (HBox lb ns) = lb_width lb"
| "width (VBox lb ns) = lb_width lb"

fun height :: "Box \<Rightarrow> real" where
  "height (Rule w h d) = h"
| "height (CharBox w h d) = h"
| "height (HBox lb ns) = lb_height lb"
| "height (VBox lb ns) = lb_height lb"

fun depth :: "Box \<Rightarrow> real" where
  "depth (Rule w h d) = d"
| "depth (CharBox w h d) = d"
| "depth (HBox lb ns) = lb_depth lb"
| "depth (VBox lb ns) = lb_depth lb"

fun isBox :: "Node \<Rightarrow> bool" where
  "isBox (BoxNode b) = True"
| "isBox n = False"

fun isGlue :: "Node \<Rightarrow> bool" where
  "isGlue (GlueNode g) = True"
| "isGlue n = False"

fun isKern :: "Node \<Rightarrow> bool" where
  "isKern (KernNode k) = True"
| "isKern n = False"

fun isPenalty :: "Node \<Rightarrow> bool" where
  "isPenalty (PenaltyNode v) = True"
| "isPenalty n = False"

text \<open>
  Modelled from the spec: \<^verbatim>\<open>Penalty::Infinity\<close> of \<^verbatim>\<open>tex/penalty.h\<close>, the sentinel 10000 that
  \<^verbatim>\<open>computeDemerits\<close> also writes as a literal, and the two helpers building penalty nodes.
\<close>

definition Infinity :: int where
  "Infinity = 10000"

definition penalty :: "int \<Rightarrow> Node" where
  "penalty v = PenaltyNode v"

definition infinitePenalty :: Node where
  "infinitePenalty = penalty Infinity"

section \<open>The paragraph\<close>

text \<open>One row of a \<^verbatim>\<open>Parshape\<close>: the indent and the length of a line.\<close>

record ParshapeRow =
  indent :: real
  length_row :: real

text \<open>
  The configuration fields of \<^verbatim>\<open>Paragraph\<close> that the sources read. The class is declared in
  \<^verbatim>\<open>tex/linebreaks.h\<close>, which is not among the sources; the types are those of the uses in
  \<^verbatim>\<open>linebreaks.cpp\<close> (\<^verbatim>\<open>hangafter\<close>, \<^verbatim>\<open>linepenalty\<close> and \<^verbatim>\<open>adjdemerits\<close> are \<^verbatim>\<open>int\<close>). Every
  field is assigned by the caller; \<^verbatim>\<open>prepare\<close> and the line breaker read the skips as the
  fields hold them at the call.
\<close>

record Paragraph =
  hsize :: real
  tolerance :: real
  linepenalty :: int
  adjdemerits :: int
  hangindent :: real
  hangafter :: int
  parshape :: "ParshapeRow list"
  leftskip :: Glue
  rightskip :: Glue
  baselineskip :: Glue
  lineskip :: Glue
  lineskiplimit :: real
  parfillskip :: Glue
  prevdepth :: real

text \<open>
  \<^verbatim>\<open>Paragraph::prepare\<close> changes the list in place; the model returns the new list.
\<close>

definition prepare :: "Paragraph \<Rightarrow> Node list \<Rightarrow> Node list" where
  "prepare p hlist =
     (if hlist = [] then hlist
      else
        (let hlist1 = (if isGlue (last hlist) then butlast hlist else hlist);
             hlist2 = hlist1 @ [infinitePenalty];
             hlist3 = hlist2 @ [GlueNode (parfillskip p)]
         in hlist3 @ [penalty (- Infinity)]))"

section \<open>Glue totals\<close>

text \<open>
  Modelled from the spec: the totals types \<^verbatim>\<open>StretchTotals\<close> and \<^verbatim>\<open>ShrinkTotals\<close> of
  \<^verbatim>\<open>tex/glue.h\<close>, which is not among the sources. A totals value has one accumulator per
  glue order; \<^verbatim>\<open>order()\<close> is the highest order whose accumulator is not zero; sums and
  differences of totals are taken accumulator by accumulator.
\<close>

record GlueTotals =
  normal :: real
  fil :: real
  fill :: real
  filll :: real

type_synonym StretchTotals = GlueTotals
type_synonym ShrinkTotals = GlueTotals

definition GlueTotals_zero :: GlueTotals where
  "GlueTotals_zero = \<lparr> normal = 0, fil = 0, fill = 0, filll = 0 \<rparr>"

definition order :: "GlueTotals \<Rightarrow> GlueOrder" where
  "order t =
     (if filll t \<noteq> 0 then Filll
      else if fill t \<noteq> 0 then Fill
      else if fil t \<noteq> 0 then Fil
      else Normal)"

definition totals_plus :: "GlueTotals \<Rightarrow> GlueTotals \<Rightarrow> GlueTotals" where
  "totals_plus a b =
     \<lparr> normal = normal a + normal b, fil = fil a + fil b,
       fill = fill a + fill b, filll = filll a + filll b \<rparr>"

definition totals_minus :: "GlueTotals \<Rightarrow> GlueTotals \<Rightarrow> GlueTotals" where
  "totals_minus a b =
     \<lparr> normal = normal a - normal b, fil = fil a - fil b,
       fill = fill a - fill b, filll = filll a - filll b \<rparr>"

fun add_amount :: "real \<Rightarrow> GlueOrder \<Rightarrow> GlueTotals \<Rightarrow> GlueTotals" where
  "add_amount x Normal t = t\<lparr> normal := normal t + x \<rparr>"
| "add_amount x Fil t = t\<lparr> fil := fil t + x \<rparr>"
| "add_amount x Fill t = t\<lparr> fill := fill t + x \<rparr>"
| "add_amount x Filll t = t\<lparr> filll := filll t + x \<rparr>"

text \<open>
  Modelled from the spec: \<^verbatim>\<open>Glue::accumulate(shrink, stretch)\<close> adds the glue's shrink to
  the shrink totals and its stretch to the stretch totals, each at its own order. The
  model returns the two updated totals in the order of the parameters.
\<close>

definition accumulate :: "Glue \<Rightarrow> ShrinkTotals \<Rightarrow> StretchTotals \<Rightarrow> ShrinkTotals \<times> StretchTotals" where
  "accumulate g shr str =
     (add_amount (shrink g) (shrinkOrder g) shr, add_amount (stretch g) (stretchOrder g) str)"

text \<open>\<^verbatim>\<open>Paragraph::Totals\<close>: the running width, stretch and shrink; its constructor zeroes them.\<close>

record Totals =
  t_width :: real
  t_stretch :: StretchTotals
  t_shrink :: ShrinkTotals

definition Totals_ctor :: Totals where
  "Totals_ctor = \<lparr> t_width = 0, t_stretch = GlueTotals_zero, t_shrink = GlueTotals_zero \<rparr>"

text \<open>The two statements \<^verbatim>\<open>sum.width += g.space(); g.accumulate(sum.shrink, sum.stretch);\<close>.\<close>

definition add_glue :: "Totals \<Rightarrow> Glue \<Rightarrow> Totals" where
  "add_glue tsum g =
     (let sum1 = tsum\<lparr> t_width := t_width tsum + space g \<rparr>;
          (shr, str) = accumulate g (t_shrink sum1) (t_stretch sum1)
      in sum1\<lparr> t_stretch := str, t_shrink := shr \<rparr>)"

section \<open>Line lengths\<close>

text \<open>
  \<^verbatim>\<open>static_cast<int>(n)\<close> for a \<^verbatim>\<open>size_t\<close> \<open>n\<close>: the value modulo \<open>2^32\<close>, read as a signed
  32-bit integer.
\<close>

definition cast_int :: "nat \<Rightarrow> int" where
  "cast_int n =
     (let m = int n mod 4294967296 in if m < 2147483648 then m else m - 4294967296)"

text \<open>
  The negation \<^verbatim>\<open>-h\<close> of an \<^verbatim>\<open>int\<close>. The negation of the least \<^verbatim>\<open>int\<close> overflows: it is the
  least \<^verbatim>\<open>int\<close> again in two's complement, which is what is modelled.
\<close>

definition neg_int :: "int \<Rightarrow> int" where
  "neg_int h = (if h = - 2147483648 then - 2147483648 else - h)"

definition hangindentAppliesToLine :: "Paragraph \<Rightarrow> nat \<Rightarrow> bool" where
  "hangindentAppliesToLine p n =
     ((hangafter p < 0 \<and> cast_int n < neg_int (hangafter p)) \<or>
      (hangafter p \<ge> 0 \<and> hangafter p \<le> cast_int n))"

definition linelength :: "Paragraph \<Rightarrow> nat \<Rightarrow> real" where
  "linelength p n =
     (if parshape p \<noteq> [] then
        (if n \<ge> length (parshape p) then length_row (last (parshape p))
         else length_row (parshape p ! n))
      else if hangindent p \<noteq> 0 \<and> hangindentAppliesToLine p n then hsize p - \<bar>hangindent p\<bar>
      else hsize p)"

section \<open>Badness, fitness classes and demerits\<close>

text \<open>
  The conversion \<^verbatim>\<open>(int) x\<close> of a floating-point value truncates toward zero; when the
  truncated value is not an \<^verbatim>\<open>int\<close> the behaviour of the program is undefined, which is
  \<open>None\<close> here.
\<close>

definition INT_MAX :: int where
  "INT_MAX = 2147483647"

definition to_int :: "real \<Rightarrow> int option" where
  "to_int x =
     (let t = (if x \<ge> 0 then \<lfloor>x\<rfloor> else \<lceil>x\<rceil>)
      in if - INT_MAX - 1 \<le> t \<and> t \<le> INT_MAX then Some t else None)"

text \<open>
  The result of an addition of two \<^verbatim>\<open>int\<close>: outside the range of \<^verbatim>\<open>int\<close> the addition
  overflows and the behaviour is undefined.
\<close>

definition checked_int :: "int \<Rightarrow> int option" where
  "checked_int v = (if - INT_MAX - 1 \<le> v \<and> v \<le> INT_MAX then Some v else None)"

definition computeBadness :: "real \<Rightarrow> int option" where
  "computeBadness glueSetRatio =
     map_option (\<lambda>v. min v 10000) (to_int (100 * \<bar>glueSetRatio\<bar> ^ 3))"

text \<open>
  The enumeration \<^verbatim>\<open>FitnessClass\<close> is declared in \<^verbatim>\<open>tex/linebreaks.h\<close>; its enumerators are
  numbered in the order of the spec, the order in which \<^verbatim>\<open>getFitnessClass\<close> returns them
  for growing ratios. \<open>fc_int\<close> is \<^verbatim>\<open>static_cast<int>\<close> on it.
\<close>

datatype FitnessClass = Tight | Decent | Loose | VeryLoose

fun fc_int :: "FitnessClass \<Rightarrow> int" where
  "fc_int Tight = 0"
| "fc_int Decent = 1"
| "fc_int Loose = 2"
| "fc_int VeryLoose = 3"

definition getFitnessClass :: "real \<Rightarrow> FitnessClass" where
  "getFitnessClass glueSetRatio =
     (if glueSetRatio < - 0.5 then Tight
      else if glueSetRatio \<le> 0.5 then Decent
      else if glueSetRatio \<le> 1 then Loose
      else VeryLoose)"

definition checkCompatibility :: "FitnessClass \<Rightarrow> FitnessClass \<Rightarrow> bool" where
  "checkCompatibility a b = (\<bar>fc_int a - fc_int b\<bar> \<le> 1)"

text \<open>
  \<^verbatim>\<open>Demerits\<close> and \<^verbatim>\<open>Badness\<close> are declared in \<^verbatim>\<open>tex/linebreaks.h\<close>, which is not among the
  sources; they are taken to be \<^verbatim>\<open>int\<close>, the type of the values that \<^verbatim>\<open>tryBreak\<close> and
  \<^verbatim>\<open>computeBadness\<close> initialise them from and compare them with. In \<^verbatim>\<open>computeDemerits\<close> the
  sum \<^verbatim>\<open>l + b\<close> is an addition of \<^verbatim>\<open>int\<close>, the squares and their sum or difference are
  computed by \<^verbatim>\<open>std::pow\<close> on doubles, and the result is converted to \<^verbatim>\<open>Demerits\<close>.
\<close>

definition computeDemerits :: "int \<Rightarrow> int \<Rightarrow> int \<Rightarrow> int option" where
  "computeDemerits l b p =
     (if 0 \<le> p \<and> p < 10000 then
        do { s \<leftarrow> checked_int (l + b); to_int (real_of_int s ^ 2 + real_of_int p ^ 2) }
      else if - 10000 < p \<and> p < 0 then
        do { s \<leftarrow> checked_int (l + b); to_int (real_of_int s ^ 2 - real_of_int p ^ 2) }
      else
        do { s \<leftarrow> checked_int (l + b); to_int (real_of_int s ^ 2) })"

section \<open>Glue ratio of a candidate line\<close>

definition shrinkTotals :: "Glue \<Rightarrow> Glue \<Rightarrow> ShrinkTotals" where
  "shrinkTotals lskip rskip =
     (let totals = GlueTotals_zero; dummy = GlueTotals_zero;
          (totals, dummy) = accumulate lskip totals dummy;
          (totals, dummy) = accumulate rskip totals dummy
      in totals)"

definition stretchTotals :: "Glue \<Rightarrow> Glue \<Rightarrow> StretchTotals" where
  "stretchTotals lskip rskip =
     (let dummy = GlueTotals_zero; totals = GlueTotals_zero;
          (dummy, totals) = accumulate lskip dummy totals;
          (dummy, totals) = accumulate rskip dummy totals
      in totals)"

text \<open>
  A breakpoint: its position in the list, its demerits, its line, its fitness class, the
  totals at the break and the breakpoint before it (\<open>None\<close> is the null pointer).
\<close>

datatype Breakpoint =
  Breakpoint (position: nat) (demerits: int) (line: nat) (fitness: FitnessClass)
    (totals: Totals) (previous: "Breakpoint option")

definition computeGlueRatio :: "Paragraph \<Rightarrow> Totals \<Rightarrow> Breakpoint \<Rightarrow> nat \<Rightarrow> real" where
  "computeGlueRatio p tsum active current_line =
     (let width0 = t_width tsum - t_width (totals active);
          width1 = width0 - space (leftskip p);
          width2 = width1 - space (rightskip p);
          line_length = linelength p current_line
      in if width2 < line_length then
           (let diff = totals_minus
                  (totals_plus (t_stretch tsum) (stretchTotals (leftskip p) (rightskip p)))
                  (t_stretch (totals active))
            in if order diff \<noteq> Normal then 0
               else if normal diff > 0 then (line_length - width2) / normal diff
               else real_of_int Infinity)
         else if width2 > line_length then
           (let diff = totals_minus
                  (totals_plus (t_shrink tsum) (shrinkTotals (leftskip p) (rightskip p)))
                  (t_shrink (totals active))
            in if order diff \<noteq> Normal then 0
               else if normal diff > 0 then (line_length - width2) / normal diff
               else real_of_int Infinity)
         else 0)"

section \<open>Forced and forbidden breaks, discardable nodes\<close>

fun isForcedLinebreak :: "Node \<Rightarrow> bool" where
  "isForcedLinebreak (PenaltyNode v) = (v \<le> - Infinity)"
| "isForcedLinebreak n = False"

fun isForbiddenLinebreak :: "Node \<Rightarrow> bool" where
  "isForbiddenLinebreak (PenaltyNode v) = (v \<ge> Infinity)"
| "isForbiddenLinebreak n = False"

text \<open>
  The loop of \<^verbatim>\<open>squeezeDiscardables\<close> over the nodes of the range; \<open>first\<close> says that the
  iterator is still at \<^verbatim>\<open>breakpointpos\<close>.
\<close>

fun squeeze_scan :: "Totals \<Rightarrow> bool \<Rightarrow> Node list \<Rightarrow> Totals" where
  "squeeze_scan tsum first [] = tsum"
| "squeeze_scan tsum first (GlueNode g # ns) = squeeze_scan (add_glue tsum g) False ns"
| "squeeze_scan tsum first (KernNode k # ns) =
     squeeze_scan (tsum\<lparr> t_width := t_width tsum + k \<rparr>) False ns"
| "squeeze_scan tsum first (node # ns) =
     (if isBox node \<or> (\<not> first \<and> isForcedLinebreak node) then tsum
      else squeeze_scan tsum False ns)"

text \<open>The range is given by its two iterators into \<open>hlist\<close>.\<close>

definition squeezeDiscardables :: "Totals \<Rightarrow> Node list \<Rightarrow> nat \<Rightarrow> nat \<Rightarrow> Totals" where
  "squeezeDiscardables tsum hlist breakpointpos end_it =
     squeeze_scan tsum True (take (end_it - breakpointpos) (drop breakpointpos hlist))"

section \<open>Trying a break\<close>

text \<open>
  A \<^verbatim>\<open>Candidate\<close> of \<^verbatim>\<open>tryBreak\<close>: the active breakpoint it comes from (\<open>None\<close> is the null
  pointer) and its demerits. The array of four candidates, one per fitness class, is a
  list indexed by the class.
\<close>

datatype Candidate = Candidate (cand_active: "Breakpoint option") (cand_demerits: int)

definition candidates_init :: "Candidate list" where
  "candidates_init =
     [Candidate None INT_MAX, Candidate None INT_MAX, Candidate None INT_MAX, Candidate None INT_MAX]"

text \<open>
  The body of the inner loop of \<^verbatim>\<open>tryBreak\<close> for one active breakpoint: whether the
  breakpoint is erased from the active list, and the candidates after it. The two
  additions to \<^verbatim>\<open>d\<close> are additions of \<^verbatim>\<open>int\<close>. The result is \<open>None\<close> when the badness, the
  demerits or one of the additions is undefined.
\<close>

definition try_active ::
  "Paragraph \<Rightarrow> Node \<Rightarrow> Totals \<Rightarrow> nat \<Rightarrow> Breakpoint \<Rightarrow> Candidate list \<Rightarrow> (bool \<times> Candidate list) option" where
  "try_active p node tsum current_line active_bp candidates =
     (let maxratio = tolerance p;
          ratio = computeGlueRatio p tsum active_bp current_line;
          erased = (ratio < - 1 \<or> isForcedLinebreak node)
      in if - 1 \<le> ratio \<and> ratio \<le> maxratio then
           do {
             badness \<leftarrow> computeBadness ratio;
             d \<leftarrow> computeDemerits (linepenalty p) badness
                    (case node of PenaltyNode v \<Rightarrow> v | _ \<Rightarrow> 0);
             let fc = getFitnessClass ratio;
             d \<leftarrow> (if \<not> checkCompatibility fc (fitness active_bp)
                  then checked_int (d + adjdemerits p) else Some d);
             d \<leftarrow> checked_int (d + demerits active_bp);
             Some (erased,
               if d < cand_demerits (candidates ! nat (fc_int fc))
               then candidates[nat (fc_int fc) := Candidate (Some active_bp) d]
               else candidates)
           }
         else Some (erased, candidates))"

text \<open>
  The inner loop: it runs over the active breakpoints of line \<open>current_line\<close> at the front
  of the list and yields those it keeps, the candidates, and the rest of the list.
\<close>

fun tryBreak_line ::
  "Paragraph \<Rightarrow> Node \<Rightarrow> Totals \<Rightarrow> nat \<Rightarrow> Breakpoint list \<Rightarrow> Candidate list \<Rightarrow>
   (Breakpoint list \<times> Candidate list \<times> Breakpoint list) option" where
  "tryBreak_line p node tsum current_line [] candidates = Some ([], candidates, [])"
| "tryBreak_line p node tsum current_line (a # as) candidates =
     (if line a = current_line then
        do {
          (erased, candidates1) \<leftarrow> try_active p node tsum current_line a candidates;
          (kept, candidates2, rest) \<leftarrow> tryBreak_line p node tsum current_line as candidates1;
          Some (if erased then kept else a # kept, candidates2, rest)
        }
      else Some ([], candidates, a # as))"

text \<open>
  The final loop over the four candidates: the breakpoints that it inserts before the next
  line's active breakpoints. A candidate whose demerits are below \<^verbatim>\<open>INT_MAX\<close> was stored
  together with its active breakpoint.
\<close>

fun new_breakpoints :: "nat \<Rightarrow> Totals \<Rightarrow> (FitnessClass \<times> Candidate) list \<Rightarrow> Breakpoint list" where
  "new_breakpoints it local_sum [] = []"
| "new_breakpoints it local_sum ((current_fc, c) # cs) =
     (if cand_demerits c < INT_MAX then
        (case cand_active c of
           Some b \<Rightarrow>
             Breakpoint it (cand_demerits c) (line b + 1) current_fc local_sum (Some b) #
             new_breakpoints it local_sum cs
         | None \<Rightarrow> new_breakpoints it local_sum cs)
      else new_breakpoints it local_sum cs)"

text \<open>
  The inner loop leaves at most the breakpoints after the first one, which is what makes
  the outer loop terminate.
\<close>

lemma tryBreak_line_rest:
  "tryBreak_line p node tsum cl as cands = Some (kept, cands', rest) \<Longrightarrow> length rest \<le> length as"
proof (induction as arbitrary: cands kept cands' rest)
  case Nil
  then show ?case by simp
next
  case (Cons a as)
  show ?case
  proof (cases "line a = cl")
    case False
    with Cons.prems show ?thesis by simp
  next
    case True
    with Cons.prems obtain c1 k c2 where
      "tryBreak_line p node tsum cl as c1 = Some (k, c2, rest)"
      by (auto split: Option.bind_splits prod.splits)
    from Cons.IH[OF this] show ?thesis by simp
  qed
qed

lemma tryBreak_line_rest_Cons:
  assumes "tryBreak_line p node tsum (line a) (a # as) cands = Some (kept, cands', rest)"
  shows "length rest \<le> length as"
proof -
  from assms obtain c1 k c2 where
    "tryBreak_line p node tsum (line a) as c1 = Some (k, c2, rest)"
    by (auto split: Option.bind_splits prod.splits)
  then show ?thesis by (rule tryBreak_line_rest)
qed

text \<open>
  The outer loop of \<^verbatim>\<open>tryBreak\<close>, from an iterator into the active list to its end: the
  model returns the part of the active list from that iterator on, as the loop leaves it.
\<close>

function tryBreak_from ::
  "Paragraph \<Rightarrow> Node list \<Rightarrow> nat \<Rightarrow> Totals \<Rightarrow> Breakpoint list \<Rightarrow> Breakpoint list option" where
  "tryBreak_from p hlist it tsum [] = Some []"
| "tryBreak_from p hlist it tsum (a # as) =
     (case tryBreak_line p (hlist ! it) tsum (line a) (a # as) candidates_init of
        None \<Rightarrow> None
      | Some (kept, candidates, rest) \<Rightarrow>
          (let local_sum = squeezeDiscardables tsum hlist it (length hlist);
               new = new_breakpoints it local_sum (zip [Tight, Decent, Loose, VeryLoose] candidates)
           in case tryBreak_from p hlist it tsum rest of
                None \<Rightarrow> None
              | Some tail \<Rightarrow> Some (kept @ new @ tail)))"
  by pat_completeness auto
termination
  by (relation "measure (\<lambda>(p, hlist, it, tsum, as). length as)")
     (auto simp del: tryBreak_line.simps dest!: tryBreak_line_rest_Cons)

text \<open>
  \<^verbatim>\<open>Paragraph::tryBreak\<close> dereferences \<open>it\<close>: an iterator at the end of the list is undefined
  behaviour, \<open>None\<close>.
\<close>

definition tryBreak ::
  "Paragraph \<Rightarrow> Breakpoint list \<Rightarrow> Node list \<Rightarrow> nat \<Rightarrow> Totals \<Rightarrow> Breakpoint list option" where
  "tryBreak p activeBreakpoints hlist it tsum =
     (if it < length hlist then tryBreak_from p hlist it tsum activeBreakpoints else None)"

section \<open>The feasible breakpoints\<close>

text \<open>
  One iteration of the loop of \<^verbatim>\<open>computeFeasibleBreakpoints\<close>, on the active list, the
  running totals and \<^verbatim>\<open>prevnode\<close>. The loop is written for any procedure \<open>tb\<close> called at the
  two places where the source calls \<^verbatim>\<open>tryBreak\<close>, and for any type of active list, so that
  the calls can be observed; the source's function is its instance at \<open>tryBreak\<close>.
\<close>

definition feasible_step ::
  "('a \<Rightarrow> Node list \<Rightarrow> nat \<Rightarrow> Totals \<Rightarrow> 'a option) \<Rightarrow> Node list \<Rightarrow>
   'a \<times> Totals \<times> nat \<Rightarrow> nat \<Rightarrow> ('a \<times> Totals \<times> nat) option" where
  "feasible_step tb hlist st it =
     (case st of (activeNodes, tsum, prevnode) \<Rightarrow>
        (case hlist ! it of
           BoxNode b \<Rightarrow> Some (activeNodes, tsum\<lparr> t_width := t_width tsum + width b \<rparr>, it)
         | GlueNode g \<Rightarrow>
             (case (if prevnode \<noteq> length hlist \<and> isBox (hlist ! prevnode)
                    then tb activeNodes hlist it tsum else Some activeNodes) of
                None \<Rightarrow> None
              | Some activeNodes1 \<Rightarrow> Some (activeNodes1, add_glue tsum g, it))
         | KernNode k \<Rightarrow> Some (activeNodes, tsum\<lparr> t_width := t_width tsum + k \<rparr>, it)
         | PenaltyNode v \<Rightarrow>
             (if \<not> isForbiddenLinebreak (PenaltyNode v)
              then (case tb activeNodes hlist it tsum of
                      None \<Rightarrow> None
                    | Some activeNodes1 \<Rightarrow> Some (activeNodes1, tsum, it))
              else Some (activeNodes, tsum, it))))"

fun feasible_loop ::
  "('a \<Rightarrow> Node list \<Rightarrow> nat \<Rightarrow> Totals \<Rightarrow> 'a option) \<Rightarrow> Node list \<Rightarrow>
   'a \<times> Totals \<times> nat \<Rightarrow> nat list \<Rightarrow> ('a \<times> Totals \<times> nat) option" where
  "feasible_loop tb hlist st [] = Some st"
| "feasible_loop tb hlist st (it # its) =
     (case feasible_step tb hlist st it of
        None \<Rightarrow> None
      | Some st1 \<Rightarrow> feasible_loop tb hlist st1 its)"

definition computeFeasibleBreakpoints_with ::
  "('a \<Rightarrow> Node list \<Rightarrow> nat \<Rightarrow> Totals \<Rightarrow> 'a option) \<Rightarrow> 'a \<Rightarrow> Node list \<Rightarrow> 'a option" where
  "computeFeasibleBreakpoints_with tb activeNodes hlist =
     map_option fst
       (feasible_loop tb hlist (activeNodes, Totals_ctor, length hlist) [0..<length hlist])"

definition computeFeasibleBreakpoints :: "Paragraph \<Rightarrow> Node list \<Rightarrow> Breakpoint list option" where
  "computeFeasibleBreakpoints p hlist =
     computeFeasibleBreakpoints_with (tryBreak p)
       [Breakpoint 0 0 0 Tight Totals_ctor None] hlist"

section \<open>Choosing the breakpoints\<close>

text \<open>
  What a call does: it returns a value, it throws, or its behaviour is undefined.
\<close>

datatype exn = runtime_error string

datatype 'a outcome = Returns 'a | Throws exn | Undefined

text \<open>\<^verbatim>\<open>computeBreakpoints(std::shared_ptr<Breakpoint>)\<close>: the chain of a breakpoint, reversed.\<close>

fun chain :: "Breakpoint \<Rightarrow> Breakpoint list" where
  "chain (Breakpoint pos d l fc t prev) =
     Breakpoint pos d l fc t prev # (case prev of None \<Rightarrow> [] | Some b \<Rightarrow> chain b)"

definition computeBreakpoints_ptr :: "Breakpoint \<Rightarrow> Breakpoint list" where
  "computeBreakpoints_ptr breakpoints = rev (chain breakpoints)"

text \<open>
  \<^verbatim>\<open>computeBreakpoints(const std::list<std::shared_ptr<Breakpoint>>&)\<close>: the first candidate
  of least demerits. Dereferencing \<^verbatim>\<open>begin()\<close> of an empty list is undefined.
\<close>

definition computeBreakpoints_candidates :: "Breakpoint list \<Rightarrow> Breakpoint list outcome" where
  "computeBreakpoints_candidates candidates =
     (case candidates of
        [] \<Rightarrow> Undefined
      | c # cs \<Rightarrow>
          Returns (computeBreakpoints_ptr
            (foldl (\<lambda>best_breakpoint b.
                      if demerits b < demerits best_breakpoint then b else best_breakpoint)
               c candidates)))"

text \<open>
  \<^verbatim>\<open>computeBreakpoints(const List&)\<close>. The function reads the paragraph and assigns none of
  its fields: the paragraph after the call, returned beside the outcome, is the one before.
\<close>

definition computeBreakpoints :: "Paragraph \<Rightarrow> Node list \<Rightarrow> Breakpoint list outcome \<times> Paragraph" where
  "computeBreakpoints p hlist =
     (case computeFeasibleBreakpoints p hlist of
        None \<Rightarrow> (Undefined, p)
      | Some activeNodes \<Rightarrow>
          (if length activeNodes = 0 then (Throws (runtime_error ''Failed''), p)
           else (computeBreakpoints_candidates activeNodes, p)))"

section \<open>The layout reader\<close>

text \<open>
  \<^verbatim>\<open>layoutreader.h\<close>. A position has the two coordinates \<^verbatim>\<open>x\<close> and \<^verbatim>\<open>y\<close>.
\<close>

record Pos =
  pos_x :: real
  pos_y :: real

text \<open>
  What a glue adds to the cursor beyond its space, by the glue setting of the enclosing list
  box: the two nested tests on \<^verbatim>\<open>glueRatio()\<close> and \<^verbatim>\<open>glueOrder()\<close>, the same in the four
  traversal functions.
\<close>

definition glue_set :: "ListBoxData \<Rightarrow> Glue \<Rightarrow> real" where
  "glue_set layout glue =
     (if glueRatio layout < 0 then
        (if glueOrder layout = shrinkOrder glue then glueRatio layout * shrink glue else 0)
      else
        (if glueOrder layout = stretchOrder glue then glueRatio layout * stretch glue else 0))"

text \<open>
  A reader is a function object called with a box and a position; the model threads its
  state \<open>s\<close>. \<^verbatim>\<open>read_hbox_full\<close> and \<^verbatim>\<open>read_vbox_full\<close> take the list box as its fields and its
  nodes; \<open>hbox_nodes_full\<close> and \<open>vbox_nodes_full\<close> are their loops over the nodes, with the
  cursor \<open>pos\<close>. A penalty node moves nothing.
\<close>

function read_hbox_full :: "('s \<Rightarrow> Box \<Rightarrow> Pos \<Rightarrow> 's) \<Rightarrow> 's \<Rightarrow> ListBoxData \<Rightarrow> Node list \<Rightarrow> Pos \<Rightarrow> 's"
and hbox_nodes_full :: "('s \<Rightarrow> Box \<Rightarrow> Pos \<Rightarrow> 's) \<Rightarrow> 's \<Rightarrow> ListBoxData \<Rightarrow> Node list \<Rightarrow> Pos \<Rightarrow> 's"
and read_vbox_full :: "('s \<Rightarrow> Box \<Rightarrow> Pos \<Rightarrow> 's) \<Rightarrow> 's \<Rightarrow> ListBoxData \<Rightarrow> Node list \<Rightarrow> Pos \<Rightarrow> 's"
and vbox_nodes_full :: "('s \<Rightarrow> Box \<Rightarrow> Pos \<Rightarrow> 's) \<Rightarrow> 's \<Rightarrow> ListBoxData \<Rightarrow> Node list \<Rightarrow> Pos \<Rightarrow> 's"
where
  "read_hbox_full reader s layout ns pos =
     hbox_nodes_full reader (reader s (HBox layout ns) pos) layout ns pos"
| "hbox_nodes_full reader s layout [] pos = s"
| "hbox_nodes_full reader s layout (node # ns) pos =
     (case node of
        BoxNode box \<Rightarrow>
          (let s1 =
             (case box of
                Rule w h d \<Rightarrow> reader s box pos
              | HBox listbox inner \<Rightarrow>
                  read_hbox_full reader s listbox inner
                    \<lparr> pos_x = pos_x pos, pos_y = pos_y pos + shiftAmount listbox \<rparr>
              | VBox listbox inner \<Rightarrow>
                  read_vbox_full reader s listbox inner
                    \<lparr> pos_x = pos_x pos, pos_y = pos_y pos + shiftAmount listbox \<rparr>
              | CharBox w h d \<Rightarrow> reader s box pos)
           in hbox_nodes_full reader s1 layout ns (pos\<lparr> pos_x := pos_x pos + width box \<rparr>))
      | KernNode k \<Rightarrow> hbox_nodes_full reader s layout ns (pos\<lparr> pos_x := pos_x pos + k \<rparr>)
      | GlueNode glue \<Rightarrow>
          hbox_nodes_full reader s layout ns
            (pos\<lparr> pos_x := pos_x pos + space glue + glue_set layout glue \<rparr>)
      | PenaltyNode v \<Rightarrow> hbox_nodes_full reader s layout ns pos)"
| "read_vbox_full reader s layout ns pos =
     vbox_nodes_full reader (reader s (VBox layout ns) pos) layout ns
       (pos\<lparr> pos_y := pos_y pos - lb_height layout \<rparr>)"
| "vbox_nodes_full reader s layout [] pos = s"
| "vbox_nodes_full reader s layout (node # ns) pos =
     (case node of
        BoxNode box \<Rightarrow>
          (let pos1 = pos\<lparr> pos_y := pos_y pos + height box \<rparr>;
               s1 =
             (case box of
                Rule w h d \<Rightarrow> reader s box pos1
              | HBox listbox inner \<Rightarrow>
                  read_hbox_full reader s listbox inner
                    \<lparr> pos_x = pos_x pos1 + shiftAmount listbox, pos_y = pos_y pos1 \<rparr>
              | VBox listbox inner \<Rightarrow>
                  read_vbox_full reader s listbox inner
                    \<lparr> pos_x = pos_x pos1 + shiftAmount listbox, pos_y = pos_y pos1 \<rparr>
              | CharBox w h d \<Rightarrow> reader s box pos1)
           in vbox_nodes_full reader s1 layout ns (pos1\<lparr> pos_y := pos_y pos1 + depth box \<rparr>))
      | KernNode k \<Rightarrow> vbox_nodes_full reader s layout ns (pos\<lparr> pos_y := pos_y pos + k \<rparr>)
      | GlueNode glue \<Rightarrow>
          vbox_nodes_full reader s layout ns
            (pos\<lparr> pos_y := pos_y pos + space glue + glue_set layout glue \<rparr>)
      | PenaltyNode v \<Rightarrow> vbox_nodes_full reader s layout ns pos)"
  by pat_completeness auto
termination
  apply (relation "measure (\<lambda>x. case x of
      Inl (Inl (r, s, l, ns, p)) \<Rightarrow> 2 * size_list size ns + 1
    | Inl (Inr (r, s, l, ns, p)) \<Rightarrow> 2 * size_list size ns
    | Inr (Inl (r, s, l, ns, p)) \<Rightarrow> 2 * size_list size ns + 1
    | Inr (Inr (r, s, l, ns, p)) \<Rightarrow> 2 * size_list size ns)")
  apply auto
  done

text \<open>
  The partial reader answers \<^verbatim>\<open>PartialLayoutReader::Done\<close> (true) or
  \<^verbatim>\<open>PartialLayoutReader::Continue\<close> (false); the partial traversals return as soon as a call
  answers true, and return what they were answered.
\<close>

definition Done :: bool where
  "Done = True"

definition Continue :: bool where
  "Continue = False"

function read_hbox_partial :: "('s \<Rightarrow> Box \<Rightarrow> Pos \<Rightarrow> bool \<times> 's) \<Rightarrow> 's \<Rightarrow> ListBoxData \<Rightarrow> Node list \<Rightarrow> Pos \<Rightarrow> bool \<times> 's"
and hbox_nodes_partial :: "('s \<Rightarrow> Box \<Rightarrow> Pos \<Rightarrow> bool \<times> 's) \<Rightarrow> 's \<Rightarrow> ListBoxData \<Rightarrow> Node list \<Rightarrow> Pos \<Rightarrow> bool \<times> 's"
and read_vbox_partial :: "('s \<Rightarrow> Box \<Rightarrow> Pos \<Rightarrow> bool \<times> 's) \<Rightarrow> 's \<Rightarrow> ListBoxData \<Rightarrow> Node list \<Rightarrow> Pos \<Rightarrow> bool \<times> 's"
and vbox_nodes_partial :: "('s \<Rightarrow> Box \<Rightarrow> Pos \<Rightarrow> bool \<times> 's) \<Rightarrow> 's \<Rightarrow> ListBoxData \<Rightarrow> Node list \<Rightarrow> Pos \<Rightarrow> bool \<times> 's"
where
  "read_hbox_partial reader s layout ns pos =
     (case reader s (HBox layout ns) pos of
        (True, s1) \<Rightarrow> (Done, s1)
      | (False, s1) \<Rightarrow> hbox_nodes_partial reader s1 layout ns pos)"
| "hbox_nodes_partial reader s layout [] pos = (Continue, s)"
| "hbox_nodes_partial reader s layout (node # ns) pos =
     (case node of
        BoxNode box \<Rightarrow>
          (case (case box of
                   Rule w h d \<Rightarrow> reader s box pos
                 | HBox listbox inner \<Rightarrow>
                     read_hbox_partial reader s listbox inner
                       \<lparr> pos_x = pos_x pos, pos_y = pos_y pos + shiftAmount listbox \<rparr>
                 | VBox listbox inner \<Rightarrow>
                     read_vbox_partial reader s listbox inner
                       \<lparr> pos_x = pos_x pos, pos_y = pos_y pos + shiftAmount listbox \<rparr>
                 | CharBox w h d \<Rightarrow> reader s box pos) of
             (True, s1) \<Rightarrow> (Done, s1)
           | (False, s1) \<Rightarrow>
               hbox_nodes_partial reader s1 layout ns (pos\<lparr> pos_x := pos_x pos + width box \<rparr>))
      | KernNode k \<Rightarrow> hbox_nodes_partial reader s layout ns (pos\<lparr> pos_x := pos_x pos + k \<rparr>)
      | GlueNode glue \<Rightarrow>
          hbox_nodes_partial reader s layout ns
            (pos\<lparr> pos_x := pos_x pos + space glue + glue_set layout glue \<rparr>)
      | PenaltyNode v \<Rightarrow> hbox_nodes_partial reader s layout ns pos)"
| "read_vbox_partial reader s layout ns pos =
     (case reader s (VBox layout ns) pos of
        (True, s1) \<Rightarrow> (Done, s1)
      | (False, s1) \<Rightarrow>
          vbox_nodes_partial reader s1 layout ns (pos\<lparr> pos_y := pos_y pos - lb_height layout \<rparr>))"
| "vbox_nodes_partial reader s layout [] pos = (Continue, s)"
| "vbox_nodes_partial reader s layout (node # ns) pos =
     (case node of
        BoxNode box \<Rightarrow>
          (let pos1 = pos\<lparr> pos_y := pos_y pos + height box \<rparr>
           in case (case box of
                      Rule w h d \<Rightarrow> reader s box pos1
                    | HBox listbox inner \<Rightarrow>
                        read_hbox_partial reader s listbox inner
                          \<lparr> pos_x = pos_x pos1 + shiftAmount listbox, pos_y = pos_y pos1 \<rparr>
                    | VBox listbox inner \<Rightarrow>
                        read_vbox_partial reader s listbox inner
                          \<lparr> pos_x = pos_x pos1 + shiftAmount listbox, pos_y = pos_y pos1 \<rparr>
                    | CharBox w h d \<Rightarrow> reader s box pos1) of
                (True, s1) \<Rightarrow> (Done, s1)
              | (False, s1) \<Rightarrow>
                  vbox_nodes_partial reader s1 layout ns (pos1\<lparr> pos_y := pos_y pos1 + depth box \<rparr>))
      | KernNode k \<Rightarrow> vbox_nodes_partial reader s layout ns (pos\<lparr> pos_y := pos_y pos + k \<rparr>)
      | GlueNode glue \<Rightarrow>
          vbox_nodes_partial reader s layout ns
            (pos\<lparr> pos_y := pos_y pos + space glue + glue_set layout glue \<rparr>)
      | PenaltyNode v \<Rightarrow> vbox_nodes_partial reader s layout ns pos)"
  by pat_completeness auto
termination
  apply (relation "measure (\<lambda>x. case x of
      Inl (Inl (r, s, l, ns, p)) \<Rightarrow> 2 * size_list size ns + 1
    | Inl (Inr (r, s, l, ns, p)) \<Rightarrow> 2 * size_list size ns
    | Inr (Inl (r, s, l, ns, p)) \<Rightarrow> 2 * size_list size ns + 1
    | Inr (Inr (r, s, l, ns, p)) \<Rightarrow> 2 * size_list size ns)")
  apply auto
  done

text \<open>The entry equations are unfolded on demand only.\<close>

declare read_hbox_full.simps [simp del] read_vbox_full.simps [simp del]
declare read_hbox_partial.simps [simp del] read_vbox_partial.simps [simp del]

text \<open>
  The reader that records each visit, and a visitor run over a list of visits up to the
  first one at which it answers true.
\<close>

definition record_visit :: "(Box \<times> Pos) list \<Rightarrow> Box \<Rightarrow> Pos \<Rightarrow> (Box \<times> Pos) list" where
  "record_visit visited box pos = visited @ [(box, pos)]"

fun visit_until :: "('s \<Rightarrow> Box \<Rightarrow> Pos \<Rightarrow> bool \<times> 's) \<Rightarrow> 's \<Rightarrow> (Box \<times> Pos) list \<Rightarrow> bool \<times> 's" where
  "visit_until reader s [] = (Continue, s)"
| "visit_until reader s ((box, pos) # vs) =
     (case reader s box pos of
        (True, s1) \<Rightarrow> (Done, s1)
      | (False, s1) \<Rightarrow> visit_until reader s1 vs)"

section \<open>Notions used in the statements\<close>

text \<open>
  A paragraph for the concrete runs: line width 100, tolerance 1, no left or right skip, and a
  \<^verbatim>\<open>parfillskip\<close> of stretch 1 fil.
\<close>

definition skip0 :: Glue where
  "skip0 = \<lparr> space = 0, shrink = 0, stretch = 0, shrinkOrder = Normal, stretchOrder = Normal \<rparr>"

definition hfil0 :: Glue where
  "hfil0 = \<lparr> space = 0, shrink = 0, stretch = 1, shrinkOrder = Normal, stretchOrder = Fil \<rparr>"

definition par0 :: Paragraph where
  "par0 = \<lparr> hsize = 100, tolerance = 1, linepenalty = 10, adjdemerits = 10000,
     hangindent = 0, hangafter = 0, parshape = [], leftskip = skip0, rightskip = skip0,
     baselineskip = skip0, lineskip = skip0, lineskiplimit = 0, parfillskip = hfil0,
     prevdepth = 0 \<rparr>"

text \<open>
  What one scanned node adds to the totals, and the nodes that \<^verbatim>\<open>squeezeDiscardables\<close> scans
  in a range: the node at the start unless it is a box, then the nodes up to the first box or
  forced break. \<open>scanned_nodes_claimed\<close> is the scan as the spec words it, stopping at a
  forced break also at the start.
\<close>

fun add_discardable :: "Totals \<Rightarrow> Node \<Rightarrow> Totals" where
  "add_discardable tsum (GlueNode g) = add_glue tsum g"
| "add_discardable tsum (KernNode k) = tsum\<lparr> t_width := t_width tsum + k \<rparr>"
| "add_discardable tsum node = tsum"

definition scanned_nodes :: "Node list \<Rightarrow> Node list" where
  "scanned_nodes ns =
     (case ns of
        [] \<Rightarrow> []
      | node # rest \<Rightarrow>
          if isBox node then []
          else node # takeWhile (\<lambda>m. \<not> isBox m \<and> \<not> isForcedLinebreak m) rest)"

definition scanned_nodes_claimed :: "Node list \<Rightarrow> Node list" where
  "scanned_nodes_claimed ns = takeWhile (\<lambda>m. \<not> isBox m \<and> \<not> isForcedLinebreak m) ns"

text \<open>A forced break followed by a kern and a box.\<close>

definition hl_forced :: "Node list" where
  "hl_forced = [PenaltyNode (- 10000), KernNode 5, BoxNode (CharBox 1 1 0)]"

text \<open>
  A procedure \<open>tb\<close> called in the place of \<^verbatim>\<open>tryBreak\<close>, observed: beside the active list
  it carries the list of the iterators it has been called with, and each call appends its
  iterator; the call does to the active list what \<open>tb\<close> does. \<open>break_attempted\<close> says of a
  position that its node is a glue immediately preceded by a box, or a penalty that is not
  forbidden.
\<close>

definition observed ::
  "('a \<Rightarrow> Node list \<Rightarrow> nat \<Rightarrow> Totals \<Rightarrow> 'a option) \<Rightarrow>
   'a \<times> nat list \<Rightarrow> Node list \<Rightarrow> nat \<Rightarrow> Totals \<Rightarrow> ('a \<times> nat list) option" where
  "observed tb st hlist it tsum =
     map_option (\<lambda>activeNodes. (activeNodes, snd st @ [it])) (tb (fst st) hlist it tsum)"

definition break_attempted :: "Node list \<Rightarrow> nat \<Rightarrow> bool" where
  "break_attempted hlist it =
     ((isGlue (hlist ! it) \<and> 0 < it \<and> isBox (hlist ! (it - 1))) \<or>
      (isPenalty (hlist ! it) \<and> \<not> isForbiddenLinebreak (hlist ! it)))"

text \<open>
  The invariant of the breakpoints of a list of \<open>n\<close> nodes: a breakpoint without predecessor
  is at position 0 on line 0; any other is at a node of the list, one line after its
  predecessor, which satisfies the invariant. Candidates come from a set of breakpoints
  when the breakpoints they point to are in it.
\<close>

fun wf_bp :: "nat \<Rightarrow> Breakpoint \<Rightarrow> bool" where
  "wf_bp n (Breakpoint pos d l fc t None) = (pos = 0 \<and> l = 0)"
| "wf_bp n (Breakpoint pos d l fc t (Some b)) = (pos < n \<and> l = line b + 1 \<and> wf_bp n b)"

definition cands_from :: "Breakpoint set \<Rightarrow> Candidate list \<Rightarrow> bool" where
  "cands_from A cands = (\<forall>c \<in> set cands. \<forall>b. cand_active c = Some b \<longrightarrow> b \<in> A)"

text \<open>Horizontal lists for the concrete runs, before \<^verbatim>\<open>prepare\<close>.\<close>

definition hl_word :: "Node list" where
  "hl_word = [BoxNode (CharBox 90 1 0)]"

definition glue10 :: Glue where
  "glue10 = \<lparr> space = 10, shrink = 0, stretch = 10, shrinkOrder = Normal, stretchOrder = Normal \<rparr>"

definition hl_words :: "Node list" where
  "hl_words =
     [BoxNode (CharBox 40 1 0), GlueNode glue10, BoxNode (CharBox 40 1 0), GlueNode glue10,
      BoxNode (CharBox 40 1 0)]"

definition glue1 :: Glue where
  "glue1 = \<lparr> space = 0, shrink = 1, stretch = 1, shrinkOrder = Normal, stretchOrder = Normal \<rparr>"

definition hl_tight :: "Node list" where
  "hl_tight =
     [BoxNode (CharBox 60 1 0), GlueNode glue1, BoxNode (CharBox 60 1 0), GlueNode glue1,
      BoxNode (CharBox 60 1 0)]"

text \<open>
  A partial visitor instrumented to record each of its calls, and the visits of a list
  that a visitor makes: up to and including the first one at which it answers true.
\<close>

definition logging ::
  "('s \<Rightarrow> Box \<Rightarrow> Pos \<Rightarrow> bool \<times> 's) \<Rightarrow> 's \<times> (Box \<times> Pos) list \<Rightarrow> Box \<Rightarrow> Pos \<Rightarrow>
   bool \<times> 's \<times> (Box \<times> Pos) list" where
  "logging reader st box pos =
     (case reader (fst st) box pos of (fin, s1) \<Rightarrow> (fin, s1, snd st @ [(box, pos)]))"

fun visited_until :: "('s \<Rightarrow> Box \<Rightarrow> Pos \<Rightarrow> bool \<times> 's) \<Rightarrow> 's \<Rightarrow> (Box \<times> Pos) list \<Rightarrow> (Box \<times> Pos) list" where
  "visited_until reader s [] = []"
| "visited_until reader s ((box, pos) # vs) =
     (box, pos) #
     (case reader s box pos of
        (True, s1) \<Rightarrow> []
      | (False, s1) \<Rightarrow> visited_until reader s1 vs)"

text \<open>
  A concrete visitor, which stops at the first rule, and a vbox holding an hbox with a rule
  between two character boxes, followed by a character box.
\<close>

definition done_at_rule :: "unit \<Rightarrow> Box \<Rightarrow> Pos \<Rightarrow> bool \<times> unit" where
  "done_at_rule s box pos = (case box of Rule w h d \<Rightarrow> (Done, s) | _ \<Rightarrow> (Continue, s))"

definition lb0 :: ListBoxData where
  "lb0 = \<lparr> lb_width = 6, lb_height = 1, lb_depth = 0, shiftAmount = 0, glueRatio = 0,
           glueOrder = Normal \<rparr>"

definition page_nodes :: "Node list" where
  "page_nodes =
     [BoxNode (HBox lb0 [BoxNode (CharBox 1 1 0), BoxNode (Rule 2 1 0), BoxNode (CharBox 3 1 0)]),
      BoxNode (CharBox 4 1 0)]"

section \<open>Running the model on concrete inputs\<close>

text \<open>The defining equations that the concrete runs below unfold.\<close>

lemmas eval_simps =
  computeFeasibleBreakpoints_def computeFeasibleBreakpoints_with_def feasible_step_def
  tryBreak_def try_active_def computeGlueRatio_def linelength_def hangindentAppliesToLine_def
  cast_int_def neg_int_def checked_int_def computeBadness_def to_int_def INT_MAX_def getFitnessClass_def checkCompatibility_def
  computeDemerits_def shrinkTotals_def stretchTotals_def accumulate_def add_glue_def
  squeezeDiscardables_def Totals_ctor_def GlueTotals_zero_def order_def totals_plus_def
  totals_minus_def candidates_init_def Infinity_def
  computeBreakpoints_def computeBreakpoints_candidates_def computeBreakpoints_ptr_def
  penalty_def infinitePenalty_def prepare_def Let_def upt_rec
  par0_def skip0_def hfil0_def glue10_def glue1_def hl_word_def hl_words_def
  hl_tight_def

section \<open>Preparing the horizontal list\<close>

lemma prepare_nonempty:
  "hlist \<noteq> [] \<Longrightarrow>
   prepare p hlist =
     (if isGlue (last hlist) then butlast hlist else hlist) @
     [PenaltyNode Infinity, GlueNode (parfillskip p), PenaltyNode (- Infinity)]"
  by (simp add: prepare_def Let_def infinitePenalty_def penalty_def)

text \<open>
  Claim C3, amended. For every non-empty horizontal list, \<^verbatim>\<open>Paragraph::prepare\<close> leaves a list
  that ends with exactly an infinite positive penalty, then the glue that the paragraph's
  \<^verbatim>\<open>parfillskip\<close> field holds at the call, then an infinite negative penalty. \<^verbatim>\<open>prepare\<close>
  neither builds nor checks that glue: its stretch has the order that the field's glue has.
\<close>

theorem prepare_terminates:
  assumes "hlist \<noteq> []"
  shows "\<exists>front. prepare p hlist =
           front @ [PenaltyNode Infinity, GlueNode (parfillskip p), PenaltyNode (- Infinity)]"
  using assms by (simp add: prepare_nonempty)

theorem prepare_terminates_witness:
  "(\<exists>front. prepare par0 [BoxNode (CharBox 5 7 2), KernNode 1] =
      front @ [PenaltyNode Infinity, GlueNode (parfillskip par0), PenaltyNode (- Infinity)]) \<and>
   parfillskip par0 = hfil0 \<and> stretchOrder hfil0 = Fil"
  using prepare_terminates[of "[BoxNode (CharBox 5 7 2), KernNode 1]" par0]
  by (simp add: par0_def hfil0_def)

text \<open>
  The claim as stated gives the glue a stretch of order fil for every list. On a paragraph
  whose \<^verbatim>\<open>parfillskip\<close> has been assigned a glue without stretch, the prepared list ends with
  that glue, whose stretch has order normal.
\<close>

theorem prepare_parfillskip_counterexample:
  "prepare (par0\<lparr> parfillskip := skip0 \<rparr>) [BoxNode (CharBox 5 7 2)] =
     [BoxNode (CharBox 5 7 2), PenaltyNode 10000, GlueNode skip0, PenaltyNode (- 10000)] \<and>
   stretch skip0 = 0 \<and> stretchOrder skip0 = Normal"
  by (simp add: prepare_def Let_def infinitePenalty_def penalty_def Infinity_def skip0_def)

text \<open>
  Claim C10. \<^verbatim>\<open>Paragraph::prepare\<close> leaves an empty list unchanged. On a non-empty list it
  drops the final node exactly when that node is a glue, keeps every other node in place,
  and appends exactly three nodes.
\<close>

theorem prepare_frame:
  "prepare p [] = [] \<and>
   (hlist \<noteq> [] \<longrightarrow>
      (\<exists>n1 n2 n3. prepare p hlist =
         (if isGlue (last hlist) then butlast hlist else hlist) @ [n1, n2, n3]))"
  by (simp add: prepare_nonempty) (simp add: prepare_def)

theorem prepare_frame_witness:
  "prepare par0 [] = [] \<and>
   (\<exists>n1 n2 n3. prepare par0 [BoxNode (CharBox 5 7 2), GlueNode skip0] =
      [BoxNode (CharBox 5 7 2)] @ [n1, n2, n3]) \<and>
   (\<exists>n1 n2 n3. prepare par0 [BoxNode (CharBox 5 7 2), KernNode 1] =
      [BoxNode (CharBox 5 7 2), KernNode 1] @ [n1, n2, n3])"
  using prepare_frame[of par0 "[BoxNode (CharBox 5 7 2), GlueNode skip0]"]
    prepare_frame[of par0 "[BoxNode (CharBox 5 7 2), KernNode 1]"]
  by simp

section \<open>The cases of the line length\<close>

lemma cast_int_small: "n < 2147483648 \<Longrightarrow> cast_int n = int n"
  by (simp add: cast_int_def)

text \<open>
  Claim C6, amended. For every line index \<open>n\<close>, \<^verbatim>\<open>linelength(n)\<close> is the length of row
  \<open>min n (size - 1)\<close> of a non-empty parshape; otherwise \<open>hsize - |hangindent|\<close> when
  \<open>hangindent\<close> is not zero and \<^verbatim>\<open>hangindentAppliesToLine(n)\<close> holds; otherwise \<open>hsize\<close>. With
  \<open>hangafter = 0\<close> and \<open>hangindent > 0\<close> the hanging indent applies to every line index below
  \<open>2^31\<close>, the indices that \<^verbatim>\<open>static_cast<int>\<close> keeps.
\<close>

theorem linelength_cases:
  "linelength p n =
     (if parshape p \<noteq> [] then length_row (parshape p ! min n (length (parshape p) - 1))
      else if hangindent p \<noteq> 0 \<and> hangindentAppliesToLine p n then hsize p - \<bar>hangindent p\<bar>
      else hsize p) \<and>
   (hangafter p = 0 \<and> hangindent p > 0 \<and> n < 2147483648 \<longrightarrow>
      hangindentAppliesToLine p n \<and>
      (parshape p = [] \<longrightarrow> linelength p n = hsize p - \<bar>hangindent p\<bar>))"
proof -
  have row: "(if n \<ge> length (parshape p) then length_row (last (parshape p))
              else length_row (parshape p ! n)) =
             length_row (parshape p ! min n (length (parshape p) - 1))"
    if "parshape p \<noteq> []"
  proof (cases "n \<ge> length (parshape p)")
    case True
    with that have "min n (length (parshape p) - 1) = length (parshape p) - 1"
      by (cases "parshape p") auto
    with True that show ?thesis by (simp add: last_conv_nth)
  next
    case False
    then have "min n (length (parshape p) - 1) = n" by simp
    with False show ?thesis by simp
  qed
  have applies: "hangindentAppliesToLine p n" if "hangafter p = 0" and "n < 2147483648"
    using that by (simp add: hangindentAppliesToLine_def cast_int_small)
  show ?thesis
    using row applies by (simp add: linelength_def)
qed

theorem linelength_cases_witness:
  "linelength (par0\<lparr> hangindent := 20 \<rparr>) 7 = 80 \<and>
   hangindentAppliesToLine (par0\<lparr> hangindent := 20 \<rparr>) 7 \<and>
   linelength (par0\<lparr> parshape := [\<lparr> indent = 0, length_row = 50 \<rparr>, \<lparr> indent = 5, length_row = 60 \<rparr>] \<rparr>) 7 = 60"
  using linelength_cases[of "par0\<lparr> hangindent := 20 \<rparr>" 7]
    linelength_cases[of "par0\<lparr> parshape := [\<lparr> indent = 0, length_row = 50 \<rparr>, \<lparr> indent = 5, length_row = 60 \<rparr>] \<rparr>" 7]
  by (simp add: par0_def)

text \<open>
  The claim as stated, for every line index, fails at \<open>n = 2^31\<close>: the conversion to \<^verbatim>\<open>int\<close>
  gives \<open>- 2^31\<close>, the test \<^verbatim>\<open>hangafter <= static_cast<int>(n)\<close> is false, and the line has
  the full \<open>hsize\<close>.
\<close>

theorem hangindent_every_line_counterexample:
  "hangafter (par0\<lparr> hangindent := 20 \<rparr>) = 0 \<and> hangindent (par0\<lparr> hangindent := 20 \<rparr>) > 0 \<and>
   \<not> hangindentAppliesToLine (par0\<lparr> hangindent := 20 \<rparr>) 2147483648 \<and>
   linelength (par0\<lparr> hangindent := 20 \<rparr>) 2147483648 = hsize (par0\<lparr> hangindent := 20 \<rparr>)"
  by (simp add: par0_def linelength_def hangindentAppliesToLine_def cast_int_def neg_int_def)

section \<open>The cases of the glue ratio\<close>

text \<open>
  Claim C4, amended. With the effective width \<open>w\<close> (the width since the active breakpoint, less
  the spaces of \<^verbatim>\<open>leftskip\<close> and \<^verbatim>\<open>rightskip\<close>) and \<open>L = linelength n\<close>: when \<open>w < L\<close>,
  \<^verbatim>\<open>computeGlueRatio\<close> is 0 if the stretch difference (the running stretch plus the stretch of
  the two skips, less the active breakpoint's) has an order other than normal, else
  \<open>(L - w)\<close> divided by its normal component if that is positive, else the sentinel 10000;
  when \<open>w > L\<close> the same with the shrink difference: 0, or the quotient, which is negative,
  or the same sentinel 10000, which is positive; and 0 when \<open>w = L\<close>.
\<close>

theorem computeGlueRatio_cases:
  "computeGlueRatio p tsum b n =
     (let w = t_width tsum - t_width (totals b) - space (leftskip p) - space (rightskip p);
          L = linelength p n;
          dstretch = totals_minus
            (totals_plus (t_stretch tsum)
               (add_amount (stretch (rightskip p)) (stretchOrder (rightskip p))
                  (add_amount (stretch (leftskip p)) (stretchOrder (leftskip p)) GlueTotals_zero)))
            (t_stretch (totals b));
          dshrink = totals_minus
            (totals_plus (t_shrink tsum)
               (add_amount (shrink (rightskip p)) (shrinkOrder (rightskip p))
                  (add_amount (shrink (leftskip p)) (shrinkOrder (leftskip p)) GlueTotals_zero)))
            (t_shrink (totals b))
      in if w < L then
           (if order dstretch \<noteq> Normal then 0
            else if normal dstretch > 0 then (L - w) / normal dstretch
            else real_of_int Infinity)
         else if w > L then
           (if order dshrink \<noteq> Normal then 0
            else if normal dshrink > 0 then (L - w) / normal dshrink
            else real_of_int Infinity)
         else 0) \<and>
   (linelength p n < t_width tsum - t_width (totals b) - space (leftskip p) - space (rightskip p) \<and>
    order (totals_minus (totals_plus (t_shrink tsum) (shrinkTotals (leftskip p) (rightskip p)))
             (t_shrink (totals b))) = Normal \<and>
    normal (totals_minus (totals_plus (t_shrink tsum) (shrinkTotals (leftskip p) (rightskip p)))
             (t_shrink (totals b))) > 0
    \<longrightarrow> computeGlueRatio p tsum b n < 0) \<and>
   (linelength p n < t_width tsum - t_width (totals b) - space (leftskip p) - space (rightskip p) \<and>
    order (totals_minus (totals_plus (t_shrink tsum) (shrinkTotals (leftskip p) (rightskip p)))
             (t_shrink (totals b))) = Normal \<and>
    normal (totals_minus (totals_plus (t_shrink tsum) (shrinkTotals (leftskip p) (rightskip p)))
             (t_shrink (totals b))) \<le> 0
    \<longrightarrow> computeGlueRatio p tsum b n = 10000)"
  by (simp add: computeGlueRatio_def Let_def stretchTotals_def shrinkTotals_def accumulate_def
      divide_neg_pos Infinity_def)

theorem computeGlueRatio_cases_witness:
  "computeGlueRatio par0
     (Totals_ctor\<lparr> t_width := 90, t_stretch := GlueTotals_zero\<lparr> normal := 5 \<rparr> \<rparr>)
     (Breakpoint 0 0 0 Tight Totals_ctor None) 0 = 2 \<and>
   computeGlueRatio par0
     (Totals_ctor\<lparr> t_width := 110, t_shrink := GlueTotals_zero\<lparr> normal := 20 \<rparr> \<rparr>)
     (Breakpoint 0 0 0 Tight Totals_ctor None) 0 = - 1 / 2 \<and>
   computeGlueRatio par0
     (Totals_ctor\<lparr> t_width := 110, t_shrink := GlueTotals_zero\<lparr> normal := 20, fil := 1 \<rparr> \<rparr>)
     (Breakpoint 0 0 0 Tight Totals_ctor None) 0 = 0 \<and>
   computeGlueRatio par0 (Totals_ctor\<lparr> t_width := 110 \<rparr>)
     (Breakpoint 0 0 0 Tight Totals_ctor None) 0 = 10000 \<and>
   computeGlueRatio par0
     (Totals_ctor\<lparr> t_width := 90, t_stretch := GlueTotals_zero\<lparr> normal := 5, fil := 1 \<rparr> \<rparr>)
     (Breakpoint 0 0 0 Tight Totals_ctor None) 0 = 0 \<and>
   computeGlueRatio par0 (Totals_ctor\<lparr> t_width := 90 \<rparr>)
     (Breakpoint 0 0 0 Tight Totals_ctor None) 0 = 10000 \<and>
   computeGlueRatio par0 (Totals_ctor\<lparr> t_width := 100 \<rparr>)
     (Breakpoint 0 0 0 Tight Totals_ctor None) 0 = 0"
  using
    computeGlueRatio_cases[of par0
      "Totals_ctor\<lparr> t_width := 90, t_stretch := GlueTotals_zero\<lparr> normal := 5 \<rparr> \<rparr>"
      "Breakpoint 0 0 0 Tight Totals_ctor None" 0]
    computeGlueRatio_cases[of par0
      "Totals_ctor\<lparr> t_width := 110, t_shrink := GlueTotals_zero\<lparr> normal := 20 \<rparr> \<rparr>"
      "Breakpoint 0 0 0 Tight Totals_ctor None" 0]
    computeGlueRatio_cases[of par0 "Totals_ctor\<lparr> t_width := 110 \<rparr>"
      "Breakpoint 0 0 0 Tight Totals_ctor None" 0]
  by (simp add: eval_simps)

text \<open>
  The claim as stated has a negative ratio whenever \<open>w > L\<close>. On a line of width 110 for a
  line length of 100, with no shrink, the function returns the sentinel 10000.
\<close>

theorem computeGlueRatio_overfull_counterexample:
  "linelength par0 0 = 100 \<and>
   t_width (Totals_ctor\<lparr> t_width := 110 \<rparr>) - t_width (totals (Breakpoint 0 0 0 Tight Totals_ctor None))
     - space (leftskip par0) - space (rightskip par0) = 110 \<and>
   computeGlueRatio par0 (Totals_ctor\<lparr> t_width := 110 \<rparr>)
     (Breakpoint 0 0 0 Tight Totals_ctor None) 0 = 10000"
  by (simp add: eval_simps)

section \<open>Discardable nodes after a break\<close>

lemma squeeze_scan_later:
  "squeeze_scan tsum False ns =
     foldl add_discardable tsum (takeWhile (\<lambda>m. \<not> isBox m \<and> \<not> isForcedLinebreak m) ns)"
proof (induction ns arbitrary: tsum)
  case Nil
  show ?case by simp
next
  case (Cons node ns)
  show ?case by (cases node) (simp_all add: Cons.IH)
qed

lemma squeeze_scan_first:
  "squeeze_scan tsum True ns = foldl add_discardable tsum (scanned_nodes ns)"
proof (cases ns)
  case Nil
  then show ?thesis by (simp add: scanned_nodes_def)
next
  case (Cons node rest)
  then show ?thesis
    by (cases node) (simp_all add: scanned_nodes_def squeeze_scan_later)
qed

text \<open>
  Claim C8, amended. \<^verbatim>\<open>squeezeDiscardables\<close> returns the totals augmented by every glue (its
  space, stretch and shrink) and every kern (its space) among the nodes it scans: none if
  the range is empty or starts with a box; otherwise the node at the start, whatever its
  kind, and the nodes after it up to the first box or forced break, or to the end of the
  range. A forced break at the start of the range does not stop the scan.
\<close>

theorem squeezeDiscardables_scan:
  "squeezeDiscardables tsum hlist it end_it =
     foldl add_discardable tsum (scanned_nodes (take (end_it - it) (drop it hlist)))"
  by (simp add: squeezeDiscardables_def squeeze_scan_first)

theorem squeezeDiscardables_scan_witness:
  "squeezeDiscardables Totals_ctor hl_forced 0 3 = Totals_ctor\<lparr> t_width := 5 \<rparr>"
  using squeezeDiscardables_scan[of Totals_ctor hl_forced 0 3]
  by (simp add: hl_forced_def scanned_nodes_def Infinity_def Totals_ctor_def)

text \<open>
  The claim as stated stops the scan at a forced break wherever it stands. On a forced
  break followed by a kern of 5 and a box, scanned from the forced break, the function adds
  the kern.
\<close>

theorem squeezeDiscardables_forced_at_start_counterexample:
  "isForcedLinebreak (hl_forced ! 0) \<and>
   squeezeDiscardables Totals_ctor hl_forced 0 3 \<noteq>
     foldl add_discardable Totals_ctor (scanned_nodes_claimed (take (3 - 0) (drop 0 hl_forced)))"
  by (simp add: hl_forced_def scanned_nodes_claimed_def squeezeDiscardables_def Infinity_def
      Totals_ctor_def)

section \<open>Where a break is tried\<close>

lemma feasible_loop_append:
  "feasible_loop tb hlist st (is @ js) =
     (case feasible_loop tb hlist st is of
        None \<Rightarrow> None
      | Some st1 \<Rightarrow> feasible_loop tb hlist st1 js)"
  by (induction "is" arbitrary: st) (auto split: option.splits)

lemma feasible_step_prevnode:
  "feasible_step tb hlist st it = Some (activeNodes1, tsum1, prevnode1) \<Longrightarrow> prevnode1 = it"
  by (cases st) (auto simp: feasible_step_def split: Node.splits option.splits if_splits)

text \<open>
  One iteration with the observed procedure does to the active list, the totals and
  \<^verbatim>\<open>prevnode\<close> what the iteration with the procedure itself does, and records the position
  exactly when a break is to be tried there.
\<close>

lemma observed_step:
  assumes "it < length hlist" and "prevnode = (if it = 0 then length hlist else it - 1)"
  shows "feasible_step (observed tb) hlist ((activeNodes, calls), tsum, prevnode) it =
     map_option
       (\<lambda>(activeNodes1, tsum1, prevnode1).
           ((activeNodes1, if break_attempted hlist it then calls @ [it] else calls),
            tsum1, prevnode1))
       (feasible_step tb hlist (activeNodes, tsum, prevnode) it)"
proof (cases "hlist ! it")
  case (BoxNode b)
  then show ?thesis by (simp add: feasible_step_def break_attempted_def)
next
  case (KernNode k)
  then show ?thesis by (simp add: feasible_step_def break_attempted_def)
next
  case (GlueNode g)
  with assms show ?thesis
    by (cases "tb activeNodes hlist it tsum")
       (auto simp: feasible_step_def break_attempted_def observed_def)
next
  case (PenaltyNode v)
  then show ?thesis
    by (cases "tb activeNodes hlist it tsum")
       (auto simp: feasible_step_def break_attempted_def observed_def)
qed

lemma observed_loop:
  "k \<le> length hlist \<Longrightarrow>
   feasible_loop (observed tb) hlist ((activeNodes, []), tsum, length hlist) [0..<k] =
     map_option
       (\<lambda>(activeNodes1, tsum1, prevnode1).
           ((activeNodes1, filter (break_attempted hlist) [0..<k]), tsum1, prevnode1))
       (feasible_loop tb hlist (activeNodes, tsum, length hlist) [0..<k]) \<and>
   (\<forall>activeNodes1 tsum1 prevnode1.
      feasible_loop tb hlist (activeNodes, tsum, length hlist) [0..<k] =
        Some (activeNodes1, tsum1, prevnode1) \<longrightarrow>
      prevnode1 = (if k = 0 then length hlist else k - 1))"
proof (induction k)
  case 0
  show ?case by simp
next
  case (Suc k)
  show ?case
  proof (cases "feasible_loop tb hlist (activeNodes, tsum, length hlist) [0..<k]")
    case None
    with Suc.IH Suc.prems show ?thesis by (simp add: feasible_loop_append)
  next
    case (Some st)
    obtain activeNodes1 tsum1 prevnode1 where st: "st = (activeNodes1, tsum1, prevnode1)"
      by (cases st)
    from Suc.prems have k: "k < length hlist" by simp
    from Suc.IH Suc.prems Some st have
      obs: "feasible_loop (observed tb) hlist ((activeNodes, []), tsum, length hlist) [0..<k] =
        Some ((activeNodes1, filter (break_attempted hlist) [0..<k]), tsum1, prevnode1)" and
      prev: "prevnode1 = (if k = 0 then length hlist else k - 1)"
      by simp_all
    note step = observed_step[OF k prev, of tb activeNodes1 "filter (break_attempted hlist) [0..<k]" tsum1]
    show ?thesis
    proof (cases "feasible_step tb hlist (activeNodes1, tsum1, prevnode1) k")
      case None
      with Some st obs step show ?thesis by (simp add: feasible_loop_append)
    next
      case (Some st2)
      obtain activeNodes2 tsum2 prevnode2 where st2: "st2 = (activeNodes2, tsum2, prevnode2)"
        by (cases st2)
      from feasible_step_prevnode[OF Some[unfolded st2]] have "prevnode2 = k" .
      with Some st2 \<open>feasible_loop tb hlist (activeNodes, tsum, length hlist) [0..<k] = Some st\<close>
        st obs step
      show ?thesis by (simp add: feasible_loop_append)
    qed
  qed
qed

text \<open>
  Claim C7. \<^verbatim>\<open>computeFeasibleBreakpoints\<close> calls \<^verbatim>\<open>tryBreak\<close> at a node exactly when the node is
  a glue whose immediately preceding node is a box, or a penalty whose value is below the
  sentinel 10000: run with \<^verbatim>\<open>tryBreak\<close> observed, the pass computes the active list that
  \<^verbatim>\<open>computeFeasibleBreakpoints\<close> computes, and the iterators that \<^verbatim>\<open>tryBreak\<close> has been called
  with are exactly these positions of the list, in order. (Where a call of \<^verbatim>\<open>tryBreak\<close> is
  undefined, both passes are.)
\<close>

theorem break_attempts:
  "computeFeasibleBreakpoints_with (observed (tryBreak p))
     ([Breakpoint 0 0 0 Tight Totals_ctor None], []) hlist =
   map_option
     (\<lambda>activeNodes. (activeNodes, filter (break_attempted hlist) [0..<length hlist]))
     (computeFeasibleBreakpoints p hlist)"
proof -
  from observed_loop[where tb = "tryBreak p" and hlist = hlist and k = "length hlist"
      and activeNodes = "[Breakpoint 0 0 0 Tight Totals_ctor None]" and tsum = Totals_ctor,
      OF le_refl]
  have "feasible_loop (observed (tryBreak p)) hlist
      (([Breakpoint 0 0 0 Tight Totals_ctor None], []), Totals_ctor, length hlist)
      [0..<length hlist] =
    map_option
      (\<lambda>(activeNodes1, tsum1, prevnode1).
          ((activeNodes1, filter (break_attempted hlist) [0..<length hlist]), tsum1, prevnode1))
      (feasible_loop (tryBreak p) hlist
         ([Breakpoint 0 0 0 Tight Totals_ctor None], Totals_ctor, length hlist)
         [0..<length hlist])"
    by simp
  then show ?thesis
    by (cases "feasible_loop (tryBreak p) hlist
         ([Breakpoint 0 0 0 Tight Totals_ctor None], Totals_ctor, length hlist)
         [0..<length hlist]")
       (auto simp: computeFeasibleBreakpoints_def computeFeasibleBreakpoints_with_def)
qed

theorem break_attempts_witness:
  "map_option snd
     (computeFeasibleBreakpoints_with (observed (tryBreak par0))
        ([Breakpoint 0 0 0 Tight Totals_ctor None], []) (prepare par0 hl_words)) =
     Some [1, 3, 7] \<and>
   map_option (map position) (computeFeasibleBreakpoints par0 (prepare par0 hl_words)) = Some [7] \<and>
   map isGlue (prepare par0 hl_words) = [False, True, False, True, False, False, True, False] \<and>
   map isPenalty (prepare par0 hl_words) = [False, False, False, False, False, True, False, True]"
proof -
  have run: "map_option (map position) (computeFeasibleBreakpoints par0 (prepare par0 hl_words)) =
      Some [7]"
    by (simp add: eval_simps)
  have nodes: "prepare par0 hl_words =
      [BoxNode (CharBox 40 1 0), GlueNode glue10, BoxNode (CharBox 40 1 0), GlueNode glue10,
       BoxNode (CharBox 40 1 0), PenaltyNode 10000, GlueNode hfil0, PenaltyNode (- 10000)]"
    by (simp add: prepare_def hl_words_def par0_def Let_def infinitePenalty_def penalty_def
        Infinity_def)
  have attempted: "filter (break_attempted (prepare par0 hl_words)) [0..<length (prepare par0 hl_words)] =
      [1, 3, 7]"
    unfolding nodes by (simp add: break_attempted_def upt_rec Infinity_def)
  from run obtain activeNodes where
    "computeFeasibleBreakpoints par0 (prepare par0 hl_words) = Some activeNodes"
    by (cases "computeFeasibleBreakpoints par0 (prepare par0 hl_words)") auto
  with break_attempts[of par0 "prepare par0 hl_words"] attempted run nodes show ?thesis
    by simp
qed

section \<open>The chain of the chosen breakpoints\<close>

lemma cands_from_init: "cands_from A candidates_init"
  by (simp add: cands_from_def candidates_init_def)

lemma cands_from_update:
  "cands_from A cands \<Longrightarrow> a \<in> A \<Longrightarrow> cands_from A (cands[i := Candidate (Some a) d])"
  unfolding cands_from_def
  by (metis Candidate.sel(1) insert_iff option.inject set_update_subset_insert subsetD)

lemma try_active_cands:
  assumes "try_active p node tsum cl a cands = Some (erased, cands')"
    and "cands_from A cands" and "a \<in> A"
  shows "cands_from A cands'"
  using assms
  by (auto simp: try_active_def Let_def cands_from_update split: if_splits Option.bind_splits)

lemma try_active_forced:
  assumes "try_active p node tsum cl a cands = Some (erased, cands')"
    and "isForcedLinebreak node"
  shows "erased"
  using assms
  by (auto simp: try_active_def Let_def split: if_splits Option.bind_splits)

lemma tryBreak_line_inv:
  assumes "tryBreak_line p node tsum cl as cands = Some (kept, cands', rest)"
    and "cands_from A cands" and "set as \<subseteq> A"
  shows "set kept \<subseteq> set as \<and> set rest \<subseteq> set as \<and> cands_from A cands' \<and>
         (isForcedLinebreak node \<longrightarrow> kept = [])"
  using assms
proof (induction as arbitrary: cands kept cands' rest)
  case Nil
  then show ?case by simp
next
  case (Cons a as)
  show ?case
  proof (cases "line a = cl")
    case False
    with Cons.prems show ?thesis by simp
  next
    case True
    with Cons.prems(1) obtain erased c1 k where
      ta: "try_active p node tsum cl a cands = Some (erased, c1)" and
      tl: "tryBreak_line p node tsum cl as c1 = Some (k, cands', rest)" and
      kept: "kept = (if erased then k else a # k)"
      by (auto split: Option.bind_splits prod.splits)
    from Cons.prems have "a \<in> A" and sub: "set as \<subseteq> A" by auto
    from try_active_cands[OF ta Cons.prems(2) \<open>a \<in> A\<close>] have c1: "cands_from A c1" .
    from Cons.IH[OF tl c1 sub] have
      ih: "set k \<subseteq> set as" "set rest \<subseteq> set as" "cands_from A cands'"
        "isForcedLinebreak node \<longrightarrow> k = []"
      by auto
    from try_active_forced[OF ta] have "isForcedLinebreak node \<longrightarrow> erased" by blast
    with ih kept show ?thesis by auto
  qed
qed

lemma new_breakpoints_elem:
  assumes "b' \<in> set (new_breakpoints it local_sum zs)"
  shows "\<exists>fc c b. (fc, c) \<in> set zs \<and> cand_active c = Some b \<and>
           b' = Breakpoint it (cand_demerits c) (line b + 1) fc local_sum (Some b)"
  using assms
proof (induction zs)
  case Nil
  then show ?case by simp
next
  case (Cons z zs)
  obtain fc c where z: "z = (fc, c)" by (cases z)
  from Cons show ?case
    by (auto simp: z split: option.splits if_splits)
qed

lemma tryBreak_from_inv:
  assumes "tryBreak_from p hlist it tsum as = Some r"
    and "it < length hlist" and "\<forall>b \<in> set as. wf_bp (length hlist) b"
  shows "(\<forall>b \<in> set r. wf_bp (length hlist) b) \<and>
         (isForcedLinebreak (hlist ! it) \<longrightarrow> (\<forall>b \<in> set r. position b = it))"
  using assms
proof (induction p hlist it tsum as arbitrary: r rule: tryBreak_from.induct)
  case (1 p hlist it tsum)
  then show ?case by simp
next
  case (2 p hlist it tsum a as)
  let ?n = "length hlist"
  let ?A = "{b. wf_bp ?n b}"
  from "2.prems"(1) obtain kept cands rest tail where
    tl: "tryBreak_line p (hlist ! it) tsum (line a) (a # as) candidates_init =
           Some (kept, cands, rest)" and
    tf: "tryBreak_from p hlist it tsum rest = Some tail" and
    r: "r = kept @
          new_breakpoints it (squeezeDiscardables tsum hlist it ?n)
            (zip [Tight, Decent, Loose, VeryLoose] cands) @ tail"
    by (auto simp: Let_def split: option.splits prod.splits)
  from "2.prems"(3) have sub: "set (a # as) \<subseteq> ?A" by auto
  from tryBreak_line_inv[OF tl cands_from_init sub] have
    kept: "set kept \<subseteq> set (a # as)" and rest: "set rest \<subseteq> set (a # as)" and
    cands: "cands_from ?A cands" and forced: "isForcedLinebreak (hlist ! it) \<longrightarrow> kept = []"
    by auto
  from rest "2.prems"(3) have wf_rest: "\<forall>b \<in> set rest. wf_bp ?n b" by auto
  have ih: "(\<forall>b \<in> set tail. wf_bp ?n b) \<and>
            (isForcedLinebreak (hlist ! it) \<longrightarrow> (\<forall>b \<in> set tail. position b = it))"
    using "2.IH"[OF tl refl refl refl refl tf "2.prems"(2) wf_rest] .
  have new: "wf_bp ?n b' \<and> position b' = it"
    if "b' \<in> set (new_breakpoints it (squeezeDiscardables tsum hlist it ?n)
            (zip [Tight, Decent, Loose, VeryLoose] cands))" for b'
  proof -
    from new_breakpoints_elem[OF that] obtain fc c b where
      mem: "(fc, c) \<in> set (zip [Tight, Decent, Loose, VeryLoose] cands)" and
      act: "cand_active c = Some b" and
      b': "b' = Breakpoint it (cand_demerits c) (line b + 1) fc
                  (squeezeDiscardables tsum hlist it ?n) (Some b)"
      by blast
    from mem have "c \<in> set cands" by (rule set_zip_rightD)
    with cands act have "wf_bp ?n b" by (auto simp: cands_from_def)
    with b' "2.prems"(2) show ?thesis by simp
  qed
  from kept "2.prems"(3) have wf_kept: "\<forall>b \<in> set kept. wf_bp ?n b" by auto
  show ?case
    using r wf_kept new ih forced by auto
qed


lemma tryBreak_inv:
  assumes "tryBreak p as hlist it tsum = Some r"
    and "\<forall>b \<in> set as. wf_bp (length hlist) b"
  shows "it < length hlist \<and> (\<forall>b \<in> set r. wf_bp (length hlist) b) \<and>
         (isForcedLinebreak (hlist ! it) \<longrightarrow> (\<forall>b \<in> set r. position b = it))"
proof -
  from assms(1) have it: "it < length hlist" and
    "tryBreak_from p hlist it tsum as = Some r"
    by (auto simp: tryBreak_def split: if_splits)
  from tryBreak_from_inv[OF this(2) it assms(2)] it show ?thesis by simp
qed

lemma feasible_step_inv:
  assumes "feasible_step (tryBreak p) hlist (as, tsum, prevnode) it = Some (as1, tsum1, prevnode1)"
    and "\<forall>b \<in> set as. wf_bp (length hlist) b"
  shows "(\<forall>b \<in> set as1. wf_bp (length hlist) b) \<and>
         (isForcedLinebreak (hlist ! it) \<longrightarrow> (\<forall>b \<in> set as1. position b = it))"
proof (cases "hlist ! it")
  case (BoxNode b)
  with assms show ?thesis by (auto simp: feasible_step_def)
next
  case (KernNode k)
  with assms show ?thesis by (auto simp: feasible_step_def)
next
  case (GlueNode g)
  with assms show ?thesis
    by (auto simp: feasible_step_def split: if_splits option.splits dest: tryBreak_inv)
next
  case (PenaltyNode v)
  show ?thesis
  proof (cases "v \<ge> Infinity")
    case True
    with PenaltyNode assms show ?thesis by (auto simp: feasible_step_def Infinity_def)
  next
    case False
    with PenaltyNode assms(1) have "tryBreak p as hlist it tsum = Some as1"
      by (auto simp: feasible_step_def split: option.splits)
    from tryBreak_inv[OF this assms(2)] show ?thesis by simp
  qed
qed

lemma feasible_loop_inv:
  assumes "feasible_loop (tryBreak p) hlist (as, tsum, prevnode) its = Some (as1, tsum1, prevnode1)"
    and "\<forall>b \<in> set as. wf_bp (length hlist) b"
  shows "\<forall>b \<in> set as1. wf_bp (length hlist) b"
  using assms
proof (induction its arbitrary: as tsum prevnode)
  case Nil
  then show ?case by simp
next
  case (Cons it its)
  from Cons.prems(1) obtain as2 tsum2 prevnode2 where
    step: "feasible_step (tryBreak p) hlist (as, tsum, prevnode) it = Some (as2, tsum2, prevnode2)" and
    loop: "feasible_loop (tryBreak p) hlist (as2, tsum2, prevnode2) its = Some (as1, tsum1, prevnode1)"
    by (auto split: option.splits)
  from feasible_step_inv[OF step Cons.prems(2)] have "\<forall>b \<in> set as2. wf_bp (length hlist) b"
    by simp
  from Cons.IH[OF loop this] show ?case .
qed

lemma wf_bp_initial: "wf_bp n (Breakpoint 0 0 0 Tight Totals_ctor None)"
  by simp

lemma computeFeasibleBreakpoints_inv:
  assumes "computeFeasibleBreakpoints p hlist = Some activeNodes"
  shows "(\<forall>b \<in> set activeNodes. wf_bp (length hlist) b) \<and>
         (hlist \<noteq> [] \<and> isForcedLinebreak (last hlist) \<longrightarrow>
            (\<forall>b \<in> set activeNodes. position b = length hlist - 1))"
proof -
  let ?n = "length hlist"
  let ?init = "([Breakpoint 0 0 0 Tight Totals_ctor None], Totals_ctor, ?n)"
  from assms obtain tsum1 prevnode1 where
    loop: "feasible_loop (tryBreak p) hlist ?init [0..<?n] = Some (activeNodes, tsum1, prevnode1)"
    by (auto simp: computeFeasibleBreakpoints_def computeFeasibleBreakpoints_with_def)
  have wf0: "\<forall>b \<in> set [Breakpoint 0 0 0 Tight Totals_ctor None]. wf_bp ?n b" by simp
  from feasible_loop_inv[OF loop wf0] have wf: "\<forall>b \<in> set activeNodes. wf_bp ?n b" .
  have "\<forall>b \<in> set activeNodes. position b = ?n - 1"
    if ne: "hlist \<noteq> []" and forced: "isForcedLinebreak (last hlist)"
  proof -
    from ne have upt: "[0..<?n] = [0..<?n - 1] @ [?n - 1]"
      by (cases hlist rule: rev_cases) auto
    from loop obtain as2 tsum2 prevnode2 where
      front: "feasible_loop (tryBreak p) hlist ?init [0..<?n - 1] = Some (as2, tsum2, prevnode2)" and
      step: "feasible_step (tryBreak p) hlist (as2, tsum2, prevnode2) (?n - 1) =
               Some (activeNodes, tsum1, prevnode1)"
      unfolding upt feasible_loop_append
      by (auto split: option.splits)
    from feasible_loop_inv[OF front wf0] have wf2: "\<forall>b \<in> set as2. wf_bp ?n b" .
    from ne forced have "isForcedLinebreak (hlist ! (?n - 1))" by (simp add: last_conv_nth)
    with feasible_step_inv[OF step wf2] show ?thesis by simp
  qed
  with wf show ?thesis by simp
qed

lemma wf_bp_position: "wf_bp n b \<Longrightarrow> 0 < n \<Longrightarrow> position b < n"
  by (cases "(n, b)" rule: wf_bp.cases) auto

lemma chain_nonempty: "chain b \<noteq> []"
  by (cases b) simp

lemma chain_hd: "hd (chain b) = b"
  by (cases b) simp

lemma chain_wf:
  "wf_bp n b \<Longrightarrow>
   position (last (chain b)) = 0 \<and> line (last (chain b)) = 0 \<and>
   (\<forall>k. Suc k < length (chain b) \<longrightarrow> line (chain b ! k) = line (chain b ! Suc k) + 1)"
proof (induction b rule: chain.induct)
  case (1 pos d l fc t prev)
  show ?case
  proof (cases prev)
    case None
    with "1.prems" show ?thesis by simp
  next
    case (Some b)
    with "1.prems" have wf: "wf_bp n b" and l: "l = line b + 1" by auto
    from "1.IH"[OF Some wf] have
      ih: "position (last (chain b)) = 0" "line (last (chain b)) = 0"
        "\<forall>k. Suc k < length (chain b) \<longrightarrow> line (chain b ! k) = line (chain b ! Suc k) + 1"
      by auto
    have steps: "line ((Breakpoint pos d l fc t prev # chain b) ! k) =
        line ((Breakpoint pos d l fc t prev # chain b) ! Suc k) + 1"
      if "Suc k < length (Breakpoint pos d l fc t prev # chain b)" for k
    proof (cases k)
      case 0
      then show ?thesis using l chain_hd[of b] chain_nonempty[of b]
        by (simp add: hd_conv_nth)
    next
      case (Suc j)
      with that ih(3) show ?thesis by simp
    qed
    from ih(1,2) steps show ?thesis
      by (simp add: Some chain_nonempty)
  qed
qed

lemma computeBreakpoints_ptr_wf:
  assumes "wf_bp n b"
  shows "computeBreakpoints_ptr b \<noteq> [] \<and>
         position (hd (computeBreakpoints_ptr b)) = 0 \<and>
         line (hd (computeBreakpoints_ptr b)) = 0 \<and>
         last (computeBreakpoints_ptr b) = b \<and>
         (\<forall>k. Suc k < length (computeBreakpoints_ptr b) \<longrightarrow>
            line (computeBreakpoints_ptr b ! Suc k) = line (computeBreakpoints_ptr b ! k) + 1)"
proof -
  let ?c = "chain b"
  from chain_wf[OF assms] have
    c: "position (last ?c) = 0" "line (last ?c) = 0"
      "\<forall>k. Suc k < length ?c \<longrightarrow> line (?c ! k) = line (?c ! Suc k) + 1"
    by auto
  have steps: "line (rev ?c ! Suc k) = line (rev ?c ! k) + 1" if "Suc k < length ?c" for k
  proof -
    from that have "rev ?c ! Suc k = ?c ! (length ?c - Suc (Suc k))"
      and "rev ?c ! k = ?c ! (length ?c - Suc k)"
      by (simp_all add: rev_nth)
    moreover from that have "Suc (length ?c - Suc (Suc k)) = length ?c - Suc k"
      and "Suc (length ?c - Suc (Suc k)) < length ?c"
      by simp_all
    ultimately show ?thesis using c(3) by metis
  qed
  show ?thesis
    using c(1,2) steps chain_nonempty[of b] chain_hd[of b]
    by (simp add: computeBreakpoints_ptr_def hd_rev last_rev)
qed

lemma best_breakpoint_mem:
  "foldl (\<lambda>best_breakpoint b. if demerits b < demerits best_breakpoint then b else best_breakpoint)
     c cs \<in> insert c (set cs)"
  by (induction cs arbitrary: c) auto

text \<open>
  Claim C2, amended. For every breakpoints sequence that \<^verbatim>\<open>computeBreakpoints\<close> returns on a
  list \<open>hlist\<close>: the first breakpoint is at \<^verbatim>\<open>hlist.begin()\<close>; the line of each breakpoint is one
  more than the line of the breakpoint before it; the last breakpoint is at a node of the
  list, never at \<^verbatim>\<open>hlist.end()\<close>, when the list is not empty; and it is at the last node when
  that node is a forced break, as in a prepared list.
\<close>

theorem breakpoints_sequence:
  assumes "fst (computeBreakpoints p hlist) = Returns breakpoints"
  shows "breakpoints \<noteq> [] \<and> position (hd breakpoints) = 0 \<and> line (hd breakpoints) = 0 \<and>
         (\<forall>k. Suc k < length breakpoints \<longrightarrow>
            line (breakpoints ! Suc k) = line (breakpoints ! k) + 1) \<and>
         (hlist \<noteq> [] \<longrightarrow> position (last breakpoints) < length hlist) \<and>
         (hlist \<noteq> [] \<and> isForcedLinebreak (last hlist) \<longrightarrow>
            position (last breakpoints) = length hlist - 1)"
proof -
  from assms obtain activeNodes where
    feasible: "computeFeasibleBreakpoints p hlist = Some activeNodes" and
    chosen: "computeBreakpoints_candidates activeNodes = Returns breakpoints"
    by (auto simp: computeBreakpoints_def split: option.splits if_splits)
  from chosen obtain c cs where
    active: "activeNodes = c # cs" and
    bps: "breakpoints = computeBreakpoints_ptr
      (foldl (\<lambda>best_breakpoint b.
                if demerits b < demerits best_breakpoint then b else best_breakpoint)
         c (c # cs))"
    by (auto simp: computeBreakpoints_candidates_def split: list.splits)
  let ?best = "foldl (\<lambda>best_breakpoint b.
                if demerits b < demerits best_breakpoint then b else best_breakpoint)
         c (c # cs)"
  from best_breakpoint_mem[of c "c # cs"] active have best: "?best \<in> set activeNodes" by simp
  from computeFeasibleBreakpoints_inv[OF feasible] best have
    wf: "wf_bp (length hlist) ?best" and
    forced: "hlist \<noteq> [] \<and> isForcedLinebreak (last hlist) \<longrightarrow> position ?best = length hlist - 1"
    by auto
  from wf_bp_position[OF wf] have pos: "hlist \<noteq> [] \<longrightarrow> position ?best < length hlist" by simp
  from computeBreakpoints_ptr_wf[OF wf] pos forced show ?thesis
    unfolding bps by simp
qed

theorem breakpoints_sequence_witness:
  "fst (computeBreakpoints par0 (prepare par0 hl_words)) =
     Returns
       [Breakpoint 0 0 0 Tight Totals_ctor None,
        Breakpoint 3 22100 1 Loose
          (Totals_ctor\<lparr> t_width := 100, t_stretch := GlueTotals_zero\<lparr> normal := 20 \<rparr> \<rparr>)
          (Some (Breakpoint 0 0 0 Tight Totals_ctor None)),
        Breakpoint 7 22200 2 Decent
          (Totals_ctor\<lparr> t_width := 140, t_stretch := GlueTotals_zero\<lparr> normal := 20, fil := 1 \<rparr> \<rparr>)
          (Some (Breakpoint 3 22100 1 Loose
             (Totals_ctor\<lparr> t_width := 100, t_stretch := GlueTotals_zero\<lparr> normal := 20 \<rparr> \<rparr>)
             (Some (Breakpoint 0 0 0 Tight Totals_ctor None))))] \<and>
   length (prepare par0 hl_words) - 1 = 7"
proof -
  have run: "fst (computeBreakpoints par0 (prepare par0 hl_words)) =
     Returns
       [Breakpoint 0 0 0 Tight Totals_ctor None,
        Breakpoint 3 22100 1 Loose
          (Totals_ctor\<lparr> t_width := 100, t_stretch := GlueTotals_zero\<lparr> normal := 20 \<rparr> \<rparr>)
          (Some (Breakpoint 0 0 0 Tight Totals_ctor None)),
        Breakpoint 7 22200 2 Decent
          (Totals_ctor\<lparr> t_width := 140, t_stretch := GlueTotals_zero\<lparr> normal := 20, fil := 1 \<rparr> \<rparr>)
          (Some (Breakpoint 3 22100 1 Loose
             (Totals_ctor\<lparr> t_width := 100, t_stretch := GlueTotals_zero\<lparr> normal := 20 \<rparr> \<rparr>)
             (Some (Breakpoint 0 0 0 Tight Totals_ctor None))))]"
    by (simp add: eval_simps)
  from breakpoints_sequence[OF run] run show ?thesis
    by (simp add: prepare_def hl_words_def Let_def infinitePenalty_def penalty_def Infinity_def)
qed

text \<open>
  The claim as stated puts the last breakpoint at \<^verbatim>\<open>hlist.end()\<close>. On the prepared list of one
  box, of four nodes, the breakpoints are at positions 0 and 3: the last one is at the final
  penalty, one before the end.
\<close>

theorem breakpoints_last_position_counterexample:
  "(case fst (computeBreakpoints par0 (prepare par0 hl_word)) of
      Returns bps \<Rightarrow> map position bps | _ \<Rightarrow> []) = [0, 3] \<and>
   length (prepare par0 hl_word) = 4"
  by (simp add: eval_simps)

section \<open>No feasible breakpoint\<close>

text \<open>
  Claim C1, amended. When the pass leaves the active list empty, \<^verbatim>\<open>computeBreakpoints\<close> throws
  \<^verbatim>\<open>std::runtime_error("Failed")\<close>: it returns no value. The call assigns no field of the
  paragraph, so the caller can catch the exception and call again with a larger tolerance.
\<close>

theorem no_feasible_breakpoint_throws:
  "(computeFeasibleBreakpoints p hlist = Some [] \<longrightarrow>
      fst (computeBreakpoints p hlist) = Throws (runtime_error ''Failed'')) \<and>
   snd (computeBreakpoints p hlist) = p"
  by (simp add: computeBreakpoints_def split: option.splits)

theorem no_feasible_breakpoint_throws_witness:
  "computeFeasibleBreakpoints (par0\<lparr> tolerance := 1/2 \<rparr>)
     (prepare (par0\<lparr> tolerance := 1/2 \<rparr>) hl_words) = Some [] \<and>
   computeBreakpoints (par0\<lparr> tolerance := 1/2 \<rparr>)
     (prepare (par0\<lparr> tolerance := 1/2 \<rparr>) hl_words) =
     (Throws (runtime_error ''Failed''), par0\<lparr> tolerance := 1/2 \<rparr>) \<and>
   (case fst (computeBreakpoints (par0\<lparr> tolerance := 1/2 \<rparr>\<lparr> tolerance := 1 \<rparr>)
              (prepare (par0\<lparr> tolerance := 1/2 \<rparr>) hl_words)) of
      Returns bps \<Rightarrow> map position bps | _ \<Rightarrow> []) = [0, 3, 7]"
proof -
  have empty: "computeFeasibleBreakpoints (par0\<lparr> tolerance := 1/2 \<rparr>)
     (prepare (par0\<lparr> tolerance := 1/2 \<rparr>) hl_words) = Some []"
    by (simp add: eval_simps)
  have retry: "(case fst (computeBreakpoints (par0\<lparr> tolerance := 1/2 \<rparr>\<lparr> tolerance := 1 \<rparr>)
              (prepare (par0\<lparr> tolerance := 1/2 \<rparr>) hl_words)) of
      Returns bps \<Rightarrow> map position bps | _ \<Rightarrow> []) = [0, 3, 7]"
    by (simp add: eval_simps)
  from no_feasible_breakpoint_throws[of "par0\<lparr> tolerance := 1/2 \<rparr>"
      "prepare (par0\<lparr> tolerance := 1/2 \<rparr>) hl_words"] empty retry
  show ?thesis by (simp add: prod_eq_iff)
qed

text \<open>
  The claim as stated has the condition reported by an error value. Take three boxes of
  width 60 separated by glue of no space that stretches and shrinks by 1, prepared, on lines
  of width 100: one box is too short for any tolerance below 10000, two boxes cannot shrink
  to the line, the only active breakpoint is erased at the second glue, the active list
  ends empty and the call throws.
\<close>

theorem no_feasible_breakpoint_counterexample:
  "computeFeasibleBreakpoints par0 (prepare par0 hl_tight) = Some [] \<and>
   fst (computeBreakpoints par0 (prepare par0 hl_tight)) = Throws (runtime_error ''Failed'')"
  by (simp add: eval_simps)

section \<open>Demerits and badness\<close>

text \<open>
  \<^verbatim>\<open>computeDemerits\<close> by the sign and size of the penalty, where the sum \<open>l + b\<close> and the
  result are in the range of \<^verbatim>\<open>int\<close>; and \<^verbatim>\<open>computeBadness\<close> where the conversion to \<^verbatim>\<open>int\<close> is
  defined: for \<open>100 |r|^3\<close> below \<open>2^31\<close> the badness is \<open>min 10000 (floor (100 |r|^3))\<close>; from
  \<open>2^31\<close> on the conversion comes before the minimum is taken, and is undefined.
\<close>

lemma to_int_of_int: "to_int (real_of_int k) = checked_int k"
  by (simp add: to_int_def checked_int_def)

lemma computeDemerits_cases:
  assumes "checked_int (l + b) = Some (l + b)"
  shows "(0 \<le> p \<and> p < 10000 \<longrightarrow> computeDemerits l b p = checked_int ((l + b)\<^sup>2 + p\<^sup>2)) \<and>
         (- 10000 < p \<and> p < 0 \<longrightarrow> computeDemerits l b p = checked_int ((l + b)\<^sup>2 - p\<^sup>2)) \<and>
         (p \<le> - 10000 \<or> 10000 \<le> p \<longrightarrow> computeDemerits l b p = checked_int ((l + b)\<^sup>2))"
proof -
  have "to_int ((real_of_int (l + b))\<^sup>2 + (real_of_int p)\<^sup>2) = checked_int ((l + b)\<^sup>2 + p\<^sup>2)"
    using to_int_of_int[of "(l + b)\<^sup>2 + p\<^sup>2"] by simp
  moreover
  have "to_int ((real_of_int (l + b))\<^sup>2 - (real_of_int p)\<^sup>2) = checked_int ((l + b)\<^sup>2 - p\<^sup>2)"
    using to_int_of_int[of "(l + b)\<^sup>2 - p\<^sup>2"] by simp
  moreover
  have "to_int ((real_of_int (l + b))\<^sup>2) = checked_int ((l + b)\<^sup>2)"
    using to_int_of_int[of "(l + b)\<^sup>2"] by simp
  ultimately show ?thesis
    using assms by (auto simp: computeDemerits_def)
qed

lemma computeDemerits_overflow:
  "computeDemerits 10 10000 0 = Some 100200100 \<and> computeDemerits 40000 10000 0 = None"
  by (simp add: computeDemerits_def checked_int_def to_int_def INT_MAX_def)

lemma to_int_floor:
  assumes "0 \<le> x" and "x < 2147483648"
  shows "to_int x = Some \<lfloor>x\<rfloor>"
proof -
  from assms have "0 \<le> \<lfloor>x\<rfloor>" and "\<lfloor>x\<rfloor> \<le> 2147483647" by linarith+
  with assms(1) show ?thesis by (simp add: to_int_def INT_MAX_def)
qed

lemma to_int_overflow:
  assumes "2147483648 \<le> x"
  shows "to_int x = None"
proof -
  from assms have "0 \<le> x" and "2147483648 \<le> \<lfloor>x\<rfloor>" by linarith+
  then show ?thesis by (simp add: to_int_def INT_MAX_def)
qed

lemma computeBadness_in_range:
  assumes "100 * \<bar>r\<bar> ^ 3 < 2147483648"
  shows "computeBadness r = Some (min 10000 \<lfloor>100 * \<bar>r\<bar> ^ 3\<rfloor>)"
proof -
  have "0 \<le> 100 * \<bar>r\<bar> ^ 3" by simp
  from to_int_floor[OF this assms] show ?thesis
    unfolding computeBadness_def by (simp add: min.commute)
qed

lemma computeBadness_out_of_range:
  assumes "2147483648 \<le> 100 * \<bar>r\<bar> ^ 3"
  shows "computeBadness r = None"
  using to_int_overflow[OF assms] unfolding computeBadness_def by simp

text \<open>
  What the inner loop of \<^verbatim>\<open>tryBreak\<close> stores for an active breakpoint whose ratio is accepted
  and whose badness, demerits and sums are defined: the demerits of the line, \<^verbatim>\<open>adjdemerits\<close>
  when the fitness classes differ by more than one, and the demerits of the active
  breakpoint.
\<close>

lemma try_active_accepted:
  assumes ratio: "ratio = computeGlueRatio p tsum a cl"
    and lo: "- 1 \<le> ratio" and hi: "ratio \<le> tolerance p"
    and bad: "100 * \<bar>ratio\<bar> ^ 3 < 2147483648"
    and d0: "computeDemerits (linepenalty p) (min 10000 \<lfloor>100 * \<bar>ratio\<bar> ^ 3\<rfloor>)
           (case node of PenaltyNode v \<Rightarrow> v | _ \<Rightarrow> 0) = Some d0"
    and d1: "d1 = d0 + (if \<bar>fc_int (getFitnessClass ratio) - fc_int (fitness a)\<bar> > 1
                    then adjdemerits p else 0)"
    and c1: "checked_int d1 = Some d1"
    and c2: "checked_int (d1 + demerits a) = Some (d1 + demerits a)"
  shows "try_active p node tsum cl a cands =
     Some (isForcedLinebreak node,
       (let fc = getFitnessClass ratio; d = d1 + demerits a
        in if d < cand_demerits (cands ! nat (fc_int fc))
           then cands[nat (fc_int fc) := Candidate (Some a) d]
           else cands))"
proof -
  have badness: "computeBadness (computeGlueRatio p tsum a cl) =
      Some (min 10000 \<lfloor>100 * \<bar>ratio\<bar> ^ 3\<rfloor>)"
    using computeBadness_in_range[OF bad] ratio by simp
  have adj: "(if \<not> checkCompatibility (getFitnessClass ratio) (fitness a)
              then checked_int (d0 + adjdemerits p) else Some d0) = Some d1"
    using d1 c1 by (auto simp: checkCompatibility_def)
  from lo have erased: "(ratio < - 1 \<or> isForcedLinebreak node) = isForcedLinebreak node" by simp
  show ?thesis
    unfolding try_active_def Let_def ratio[symmetric]
    using lo hi badness[folded ratio] d0 adj c2 erased
    by simp
qed

text \<open>
  Claim C5. In \<^verbatim>\<open>tryBreak\<close> the badness of a ratio \<open>r\<close> is to be \<open>min 10000 (floor (100 |r|^3))\<close>.
  With tolerance 10000, the line of one box of width 60 that ends at the first glue of the
  list above has no stretch: its ratio is the sentinel 10000, which the tolerance accepts;
  \<open>100 r^3\<close> is then \<open>10^14\<close>, outside \<^verbatim>\<open>int\<close>, and the conversion in \<^verbatim>\<open>computeBadness\<close> is
  undefined, so is the call of \<^verbatim>\<open>tryBreak\<close> and of \<^verbatim>\<open>computeBreakpoints\<close>.
\<close>

theorem badness_conversion_undefined:
  "computeGlueRatio (par0\<lparr> tolerance := 10000 \<rparr>) (Totals_ctor\<lparr> t_width := 60 \<rparr>)
     (Breakpoint 0 0 0 Tight Totals_ctor None) 0 = 10000 \<and>
   computeBadness 10000 = None \<and>
   tryBreak (par0\<lparr> tolerance := 10000 \<rparr>) [Breakpoint 0 0 0 Tight Totals_ctor None]
     (prepare (par0\<lparr> tolerance := 10000 \<rparr>) hl_tight) 1 (Totals_ctor\<lparr> t_width := 60 \<rparr>) = None \<and>
   fst (computeBreakpoints (par0\<lparr> tolerance := 10000 \<rparr>)
     (prepare (par0\<lparr> tolerance := 10000 \<rparr>) hl_tight)) = Undefined"
  by (simp add: eval_simps)

section \<open>Partial and full traversal\<close>

lemma full_visits_acc_all:
  fixes r :: "(Box \<times> Pos) list \<Rightarrow> Box \<Rightarrow> Pos \<Rightarrow> (Box \<times> Pos) list" and s0 :: "(Box \<times> Pos) list"
  shows
  "\<forall>acc. read_hbox_full record_visit acc layout ns pos =
     acc @ read_hbox_full record_visit [] layout ns pos"
  and "\<forall>acc. hbox_nodes_full record_visit acc layout ns pos =
     acc @ hbox_nodes_full record_visit [] layout ns pos"
  and "\<forall>acc. read_vbox_full record_visit acc layout ns pos =
     acc @ read_vbox_full record_visit [] layout ns pos"
  and "\<forall>acc. vbox_nodes_full record_visit acc layout ns pos =
     acc @ vbox_nodes_full record_visit [] layout ns pos"
proof (induction r s0 layout ns pos and r s0 layout ns pos and r s0 layout ns pos and r s0 layout ns pos
    rule: read_hbox_full_hbox_nodes_full_read_vbox_full_vbox_nodes_full.induct)
  case (1 reader s layout ns pos)
  show ?case
  proof
    fix acc
    show "read_hbox_full record_visit acc layout ns pos =
      acc @ read_hbox_full record_visit [] layout ns pos"
      using "1.IH"[rule_format, of "acc @ [(HBox layout ns, pos)]"]
        "1.IH"[rule_format, of "[(HBox layout ns, pos)]"]
      by (simp add: record_visit_def read_hbox_full.simps)
  qed
next
  case (2 reader s layout pos)
  show ?case by simp
next
  case (3 reader s layout node ns pos)
  show ?case
  proof
    fix acc
    show "hbox_nodes_full record_visit acc layout (node # ns) pos =
      acc @ hbox_nodes_full record_visit [] layout (node # ns) pos"
    proof (cases node)
      case (BoxNode box)
      note rest = "3.IH"(3)[OF BoxNode refl, rule_format]
      show ?thesis
      proof (cases box)
        case (Rule w h d)
        show ?thesis
          using rest[of "acc @ [(box, pos)]"] rest[of "[(box, pos)]"]
          by (simp add: BoxNode Rule record_visit_def)
      next
        case (CharBox w h d)
        show ?thesis
          using rest[of "acc @ [(box, pos)]"] rest[of "[(box, pos)]"]
          by (simp add: BoxNode CharBox record_visit_def)
      next
        case (HBox listbox inner)
        let ?p1 = "\<lparr> pos_x = pos_x pos, pos_y = pos_y pos + shiftAmount listbox \<rparr>"
        note inner = "3.IH"(1)[OF BoxNode HBox, rule_format]
        show ?thesis
          using rest[of "read_hbox_full record_visit acc listbox inner ?p1"]
            rest[of "read_hbox_full record_visit [] listbox inner ?p1"]
            inner[of acc]
          by (simp add: BoxNode HBox)
      next
        case (VBox listbox inner)
        let ?p1 = "\<lparr> pos_x = pos_x pos, pos_y = pos_y pos + shiftAmount listbox \<rparr>"
        note inner = "3.IH"(2)[OF BoxNode VBox, rule_format]
        show ?thesis
          using rest[of "read_vbox_full record_visit acc listbox inner ?p1"]
            rest[of "read_vbox_full record_visit [] listbox inner ?p1"]
            inner[of acc]
          by (simp add: BoxNode VBox)
      qed
    next
      case (KernNode k)
      show ?thesis using "3.IH"(4)[OF KernNode, rule_format, of acc] by (simp add: KernNode)
    next
      case (GlueNode g)
      show ?thesis using "3.IH"(5)[OF GlueNode, rule_format, of acc] by (simp add: GlueNode)
    next
      case (PenaltyNode v)
      show ?thesis using "3.IH"(6)[OF PenaltyNode, rule_format, of acc] by (simp add: PenaltyNode)
    qed
  qed
next
  case (4 reader s layout ns pos)
  show ?case
  proof
    fix acc
    show "read_vbox_full record_visit acc layout ns pos =
      acc @ read_vbox_full record_visit [] layout ns pos"
      using "4.IH"[rule_format, of "acc @ [(VBox layout ns, pos)]"]
        "4.IH"[rule_format, of "[(VBox layout ns, pos)]"]
      by (simp add: record_visit_def read_vbox_full.simps)
  qed
next
  case (5 reader s layout pos)
  show ?case by simp
next
  case (6 reader s layout node ns pos)
  show ?case
  proof
    fix acc
    show "vbox_nodes_full record_visit acc layout (node # ns) pos =
      acc @ vbox_nodes_full record_visit [] layout (node # ns) pos"
    proof (cases node)
      case (BoxNode box)
      let ?q = "pos\<lparr> pos_y := pos_y pos + height box \<rparr>"
      note rest = "6.IH"(3)[OF BoxNode refl refl, rule_format]
      show ?thesis
      proof (cases box)
        case (Rule w h d)
        show ?thesis
          using rest[of "acc @ [(box, ?q)]"] rest[of "[(box, ?q)]"]
          by (simp add: BoxNode Rule record_visit_def Let_def)
      next
        case (CharBox w h d)
        show ?thesis
          using rest[of "acc @ [(box, ?q)]"] rest[of "[(box, ?q)]"]
          by (simp add: BoxNode CharBox record_visit_def Let_def)
      next
        case (HBox listbox inner)
        let ?p1 = "\<lparr> pos_x = pos_x ?q + shiftAmount listbox, pos_y = pos_y ?q \<rparr>"
        note inner = "6.IH"(1)[OF BoxNode refl HBox, rule_format]
        show ?thesis
          using rest[of "read_hbox_full record_visit acc listbox inner ?p1"]
            rest[of "read_hbox_full record_visit [] listbox inner ?p1"]
            inner[of acc]
          by (simp add: BoxNode HBox Let_def)
      next
        case (VBox listbox inner)
        let ?p1 = "\<lparr> pos_x = pos_x ?q + shiftAmount listbox, pos_y = pos_y ?q \<rparr>"
        note inner = "6.IH"(2)[OF BoxNode refl VBox, rule_format]
        show ?thesis
          using rest[of "read_vbox_full record_visit acc listbox inner ?p1"]
            rest[of "read_vbox_full record_visit [] listbox inner ?p1"]
            inner[of acc]
          by (simp add: BoxNode VBox Let_def)
      qed
    next
      case (KernNode k)
      show ?thesis using "6.IH"(4)[OF KernNode, rule_format, of acc] by (simp add: KernNode)
    next
      case (GlueNode g)
      show ?thesis using "6.IH"(5)[OF GlueNode, rule_format, of acc] by (simp add: GlueNode)
    next
      case (PenaltyNode v)
      show ?thesis using "6.IH"(6)[OF PenaltyNode, rule_format, of acc] by (simp add: PenaltyNode)
    qed
  qed
qed


lemmas full_visits_acc = full_visits_acc_all[rule_format]

lemma visit_until_append:
  "visit_until reader s (vs @ ws) =
     (case visit_until reader s vs of
        (True, s1) \<Rightarrow> (Done, s1)
      | (False, s1) \<Rightarrow> visit_until reader s1 ws)"
  by (induction vs arbitrary: s) (auto simp: Done_def Continue_def split: prod.splits bool.splits)

lemma partial_visits_all:
  fixes reader :: "'s \<Rightarrow> Box \<Rightarrow> Pos \<Rightarrow> bool \<times> 's"
    and r :: "(Box \<times> Pos) list \<Rightarrow> Box \<Rightarrow> Pos \<Rightarrow> (Box \<times> Pos) list" and s0 :: "(Box \<times> Pos) list"
  shows
  "\<forall>s. read_hbox_partial reader s layout ns pos =
     visit_until reader s (read_hbox_full record_visit [] layout ns pos)"
  and "\<forall>s. hbox_nodes_partial reader s layout ns pos =
     visit_until reader s (hbox_nodes_full record_visit [] layout ns pos)"
  and "\<forall>s. read_vbox_partial reader s layout ns pos =
     visit_until reader s (read_vbox_full record_visit [] layout ns pos)"
  and "\<forall>s. vbox_nodes_partial reader s layout ns pos =
     visit_until reader s (vbox_nodes_full record_visit [] layout ns pos)"
proof (induction r s0 layout ns pos and r s0 layout ns pos and r s0 layout ns pos and r s0 layout ns pos
    rule: read_hbox_full_hbox_nodes_full_read_vbox_full_vbox_nodes_full.induct)
  case (1 r s0 layout ns pos)
  show ?case
  proof
    fix s
    have "read_hbox_full record_visit [] layout ns pos =
      [(HBox layout ns, pos)] @ hbox_nodes_full record_visit [] layout ns pos"
      using full_visits_acc(2)[of "[(HBox layout ns, pos)]"]
      by (simp add: record_visit_def read_hbox_full.simps)
    then show "read_hbox_partial reader s layout ns pos =
      visit_until reader s (read_hbox_full record_visit [] layout ns pos)"
      using "1.IH" by (simp add: Done_def read_hbox_partial.simps split: prod.splits bool.splits)
  qed
next
  case (2 r s0 layout pos)
  show ?case by simp
next
  case (3 r s0 layout node ns pos)
  show ?case
  proof
    fix s
    show "hbox_nodes_partial reader s layout (node # ns) pos =
      visit_until reader s (hbox_nodes_full record_visit [] layout (node # ns) pos)"
    proof (cases node)
      case (BoxNode box)
      note rest = "3.IH"(3)[OF BoxNode refl, rule_format]
      let ?p2 = "pos\<lparr> pos_x := pos_x pos + width box \<rparr>"
      show ?thesis
      proof (cases box)
        case (Rule w h d)
        have "hbox_nodes_full record_visit [] layout (node # ns) pos =
          [(box, pos)] @ hbox_nodes_full record_visit [] layout ns ?p2"
          using full_visits_acc(2)[of "[(box, pos)]"] by (simp add: BoxNode Rule record_visit_def)
        then show ?thesis
          using rest by (simp add: BoxNode Rule Done_def split: prod.splits bool.splits)
      next
        case (CharBox w h d)
        have "hbox_nodes_full record_visit [] layout (node # ns) pos =
          [(box, pos)] @ hbox_nodes_full record_visit [] layout ns ?p2"
          using full_visits_acc(2)[of "[(box, pos)]"] by (simp add: BoxNode CharBox record_visit_def)
        then show ?thesis
          using rest by (simp add: BoxNode CharBox Done_def split: prod.splits bool.splits)
      next
        case (HBox listbox inner)
        let ?p1 = "\<lparr> pos_x = pos_x pos, pos_y = pos_y pos + shiftAmount listbox \<rparr>"
        note inner = "3.IH"(1)[OF BoxNode HBox, rule_format]
        have "hbox_nodes_full record_visit [] layout (node # ns) pos =
          read_hbox_full record_visit [] listbox inner ?p1 @
          hbox_nodes_full record_visit [] layout ns ?p2"
          using full_visits_acc(2)[of "read_hbox_full record_visit [] listbox inner ?p1"]
          by (simp add: BoxNode HBox)
        then show ?thesis
          using rest inner
          by (simp add: BoxNode HBox visit_until_append Done_def split: prod.splits bool.splits)
      next
        case (VBox listbox inner)
        let ?p1 = "\<lparr> pos_x = pos_x pos, pos_y = pos_y pos + shiftAmount listbox \<rparr>"
        note inner = "3.IH"(2)[OF BoxNode VBox, rule_format]
        have "hbox_nodes_full record_visit [] layout (node # ns) pos =
          read_vbox_full record_visit [] listbox inner ?p1 @
          hbox_nodes_full record_visit [] layout ns ?p2"
          using full_visits_acc(2)[of "read_vbox_full record_visit [] listbox inner ?p1"]
          by (simp add: BoxNode VBox)
        then show ?thesis
          using rest inner
          by (simp add: BoxNode VBox visit_until_append Done_def split: prod.splits bool.splits)
      qed
    next
      case (KernNode k)
      show ?thesis using "3.IH"(4)[OF KernNode, rule_format, of s] by (simp add: KernNode)
    next
      case (GlueNode g)
      show ?thesis using "3.IH"(5)[OF GlueNode, rule_format, of s] by (simp add: GlueNode)
    next
      case (PenaltyNode v)
      show ?thesis using "3.IH"(6)[OF PenaltyNode, rule_format, of s] by (simp add: PenaltyNode)
    qed
  qed
next
  case (4 r s0 layout ns pos)
  show ?case
  proof
    fix s
    have "read_vbox_full record_visit [] layout ns pos =
      [(VBox layout ns, pos)] @
      vbox_nodes_full record_visit [] layout ns (pos\<lparr> pos_y := pos_y pos - lb_height layout \<rparr>)"
      using full_visits_acc(4)[of "[(VBox layout ns, pos)]"]
      by (simp add: record_visit_def read_vbox_full.simps)
    then show "read_vbox_partial reader s layout ns pos =
      visit_until reader s (read_vbox_full record_visit [] layout ns pos)"
      using "4.IH" by (simp add: Done_def read_vbox_partial.simps split: prod.splits bool.splits)
  qed
next
  case (5 r s0 layout pos)
  show ?case by simp
next
  case (6 r s0 layout node ns pos)
  show ?case
  proof
    fix s
    show "vbox_nodes_partial reader s layout (node # ns) pos =
      visit_until reader s (vbox_nodes_full record_visit [] layout (node # ns) pos)"
    proof (cases node)
      case (BoxNode box)
      let ?q = "pos\<lparr> pos_y := pos_y pos + height box \<rparr>"
      let ?p2 = "?q\<lparr> pos_y := pos_y ?q + depth box \<rparr>"
      note rest = "6.IH"(3)[OF BoxNode refl refl, rule_format]
      show ?thesis
      proof (cases box)
        case (Rule w h d)
        have "vbox_nodes_full record_visit [] layout (node # ns) pos =
          [(box, ?q)] @ vbox_nodes_full record_visit [] layout ns ?p2"
          using full_visits_acc(4)[of "[(box, ?q)]"]
          by (simp add: BoxNode Rule record_visit_def Let_def)
        then show ?thesis
          using rest by (simp add: BoxNode Rule Done_def Let_def split: prod.splits bool.splits)
      next
        case (CharBox w h d)
        have "vbox_nodes_full record_visit [] layout (node # ns) pos =
          [(box, ?q)] @ vbox_nodes_full record_visit [] layout ns ?p2"
          using full_visits_acc(4)[of "[(box, ?q)]"]
          by (simp add: BoxNode CharBox record_visit_def Let_def)
        then show ?thesis
          using rest by (simp add: BoxNode CharBox Done_def Let_def split: prod.splits bool.splits)
      next
        case (HBox listbox inner)
        let ?p1 = "\<lparr> pos_x = pos_x ?q + shiftAmount listbox, pos_y = pos_y ?q \<rparr>"
        note inner = "6.IH"(1)[OF BoxNode refl HBox, rule_format]
        have "vbox_nodes_full record_visit [] layout (node # ns) pos =
          read_hbox_full record_visit [] listbox inner ?p1 @
          vbox_nodes_full record_visit [] layout ns ?p2"
          using full_visits_acc(4)[of "read_hbox_full record_visit [] listbox inner ?p1"]
          by (simp add: BoxNode HBox Let_def)
        then show ?thesis
          using rest inner
          by (simp add: BoxNode HBox visit_until_append Done_def Let_def split: prod.splits bool.splits)
      next
        case (VBox listbox inner)
        let ?p1 = "\<lparr> pos_x = pos_x ?q + shiftAmount listbox, pos_y = pos_y ?q \<rparr>"
        note inner = "6.IH"(2)[OF BoxNode refl VBox, rule_format]
        have "vbox_nodes_full record_visit [] layout (node # ns) pos =
          read_vbox_full record_visit [] listbox inner ?p1 @
          vbox_nodes_full record_visit [] layout ns ?p2"
          using full_visits_acc(4)[of "read_vbox_full record_visit [] listbox inner ?p1"]
          by (simp add: BoxNode VBox Let_def)
        then show ?thesis
          using rest inner
          by (simp add: BoxNode VBox visit_until_append Done_def Let_def split: prod.splits bool.splits)
      qed
    next
      case (KernNode k)
      show ?thesis using "6.IH"(4)[OF KernNode, rule_format, of s] by (simp add: KernNode)
    next
      case (GlueNode g)
      show ?thesis using "6.IH"(5)[OF GlueNode, rule_format, of s] by (simp add: GlueNode)
    next
      case (PenaltyNode v)
      show ?thesis using "6.IH"(6)[OF PenaltyNode, rule_format, of s] by (simp add: PenaltyNode)
    qed
  qed
qed

lemma logging_apply:
  "logging reader (s, acc) box pos =
     (case reader s box pos of (fin, s1) \<Rightarrow> (fin, s1, acc @ [(box, pos)]))"
  by (simp add: logging_def)

lemma visit_until_logging:
  "visit_until (logging reader) (s, acc) vs =
     (fst (visit_until reader s vs), snd (visit_until reader s vs), acc @ visited_until reader s vs)"
proof (induction vs arbitrary: s acc)
  case Nil
  show ?case by simp
next
  case (Cons v vs)
  obtain box pos where v: "v = (box, pos)" by (cases v)
  obtain fin s1 where r: "reader s box pos = (fin, s1)" by (cases "reader s box pos")
  show ?case
    by (cases fin) (simp_all add: v r logging_apply Cons.IH Done_def)
qed

lemma visited_until_prefix: "\<exists>rest. vs = visited_until reader s vs @ rest"
proof (induction vs arbitrary: s)
  case Nil
  show ?case by simp
next
  case (Cons v vs)
  obtain box pos where v: "v = (box, pos)" by (cases v)
  obtain fin s1 where r: "reader s box pos = (fin, s1)" by (cases "reader s box pos")
  from Cons.IH[of s1] show ?case
    by (cases fin) (simp_all add: v r)
qed

text \<open>
  Claim C9. For every box tree, every partial visitor and every state of the visitor, the
  partial traversal of an hbox or a vbox is the visitor run over the visits of the full
  traversal, in their order, up to and including the first visit at which it answers Done:
  the same boxes at the same positions, none after that visit, and Done as the result
  whatever the depth of the box at which the visitor answered it.
\<close>

theorem partial_traversal_prefix:
  "read_hbox_partial reader s layout ns pos =
     visit_until reader s (read_hbox_full record_visit [] layout ns pos) \<and>
   read_vbox_partial reader s layout ns pos =
     visit_until reader s (read_vbox_full record_visit [] layout ns pos) \<and>
   snd (snd (read_hbox_partial (logging reader) (s, []) layout ns pos)) =
     visited_until reader s (read_hbox_full record_visit [] layout ns pos) \<and>
   snd (snd (read_vbox_partial (logging reader) (s, []) layout ns pos)) =
     visited_until reader s (read_vbox_full record_visit [] layout ns pos)"
  using partial_visits_all(1)[of reader layout ns pos] partial_visits_all(3)[of reader layout ns pos]
    partial_visits_all(1)[of "logging reader" layout ns pos]
    partial_visits_all(3)[of "logging reader" layout ns pos]
  by (simp add: visit_until_logging)

theorem partial_traversal_prefix_witness:
  "map fst (read_vbox_full record_visit [] lb0 page_nodes \<lparr> pos_x = 0, pos_y = 1 \<rparr>) =
     [VBox lb0 page_nodes,
      HBox lb0 [BoxNode (CharBox 1 1 0), BoxNode (Rule 2 1 0), BoxNode (CharBox 3 1 0)],
      CharBox 1 1 0, Rule 2 1 0, CharBox 3 1 0, CharBox 4 1 0] \<and>
   fst (read_vbox_partial done_at_rule () lb0 page_nodes \<lparr> pos_x = 0, pos_y = 1 \<rparr>) = Done \<and>
   map fst (snd (snd (read_vbox_partial (logging done_at_rule) ((), []) lb0 page_nodes
       \<lparr> pos_x = 0, pos_y = 1 \<rparr>))) =
     [VBox lb0 page_nodes,
      HBox lb0 [BoxNode (CharBox 1 1 0), BoxNode (Rule 2 1 0), BoxNode (CharBox 3 1 0)],
      CharBox 1 1 0, Rule 2 1 0]"
proof -
  have full: "read_vbox_full record_visit [] lb0 page_nodes \<lparr> pos_x = 0, pos_y = 1 \<rparr> =
     [(VBox lb0 page_nodes, \<lparr> pos_x = 0, pos_y = 1 \<rparr>),
      (HBox lb0 [BoxNode (CharBox 1 1 0), BoxNode (Rule 2 1 0), BoxNode (CharBox 3 1 0)],
       \<lparr> pos_x = 0, pos_y = 1 \<rparr>),
      (CharBox 1 1 0, \<lparr> pos_x = 0, pos_y = 1 \<rparr>),
      (Rule 2 1 0, \<lparr> pos_x = 1, pos_y = 1 \<rparr>),
      (CharBox 3 1 0, \<lparr> pos_x = 3, pos_y = 1 \<rparr>),
      (CharBox 4 1 0, \<lparr> pos_x = 0, pos_y = 2 \<rparr>)]"
    by (simp add: read_vbox_full.simps read_hbox_full.simps page_nodes_def lb0_def
        record_visit_def Let_def)
  from partial_traversal_prefix[of done_at_rule "()" lb0 page_nodes "\<lparr> pos_x = 0, pos_y = 1 \<rparr>"]
  show ?thesis
    unfolding full by (simp add: done_at_rule_def Done_def Continue_def)
qed

end
